(* ===== verification/Prelude.thy ===== *)
theory Prelude
  imports Complex_Main "HOL-Library.Multiset"
begin

text \<open>
  Shared vocabulary of the flight-search development: the error-propagating bind that
  models a JavaScript statement sequence whose every step may throw, the callback map
  that models \<open>Array.prototype.map\<close> with a throwing callback, and the decimal digit
  strings that \<open>parseInt\<close> reads and \<open>Number::toString\<close> writes.  The lemmas here are
  generic over the element types; the component theories use them through the
  \<open>js_simps\<close> collection and the simplifier.
\<close>

named_theorems js_simps "characteristic equations of the JavaScript value model"

section \<open>Throwing computations\<close>

text \<open>
  A JavaScript expression that may throw is a value of \<open>'e + 'a\<close>: \<open>Inl\<close> is the
  exception, \<open>Inr\<close> the value.  \<open>ebind\<close> runs the rest of a statement sequence only
  when the first step returned normally, as the JavaScript evaluation order does.
\<close>

definition ebind :: "'e + 'a \<Rightarrow> ('a \<Rightarrow> 'e + 'b) \<Rightarrow> 'e + 'b" where
  "ebind m f = (case m of Inl e \<Rightarrow> Inl e | Inr a \<Rightarrow> f a)"

lemma ebind_Inl [simp]: "ebind (Inl e) f = Inl e"
  by (simp add: ebind_def)

lemma ebind_Inr [simp]: "ebind (Inr a) f = f a"
  by (simp add: ebind_def)

lemma ebind_eq_Inr_iff: "ebind m f = Inr b \<longleftrightarrow> (\<exists>a. m = Inr a \<and> f a = Inr b)"
  by (cases m) simp_all

lemma ebind_eq_Inl_iff:
  "ebind m f = Inl e \<longleftrightarrow> m = Inl e \<or> (\<exists>a. m = Inr a \<and> f a = Inl e)"
  by (cases m) simp_all

section \<open>Array.prototype.map with a callback that may throw\<close>

text \<open>
  \<open>xs.map(f)\<close> calls \<open>f\<close> on the elements in index order and propagates the first
  exception.  The callback gets the index too, as \<open>(offer, idx) => ...\<close> does;
  \<open>emap_from i\<close> starts counting at \<open>i\<close>.
\<close>

fun emap_from :: "nat \<Rightarrow> (nat \<Rightarrow> 'a \<Rightarrow> 'e + 'b) \<Rightarrow> 'a list \<Rightarrow> 'e + 'b list" where
  "emap_from i f [] = Inr []"
| "emap_from i f (x # xs) =
     ebind (f i x) (\<lambda>y. ebind (emap_from (Suc i) f xs) (\<lambda>ys. Inr (y # ys)))"

abbreviation emap :: "('a \<Rightarrow> 'e + 'b) \<Rightarrow> 'a list \<Rightarrow> 'e + 'b list" where
  "emap f xs \<equiv> emap_from 0 (\<lambda>_. f) xs"

lemma emap_from_Inr_length:
  "emap_from i f xs = Inr ys \<Longrightarrow> length ys = length xs"
  by (induction xs arbitrary: i ys) (auto simp: ebind_eq_Inr_iff)

lemma emap_from_Inr_nth:
  "emap_from i f xs = Inr ys \<Longrightarrow> k < length xs \<Longrightarrow> f (i + k) (xs ! k) = Inr (ys ! k)"
proof (induction xs arbitrary: i ys k)
  case Nil
  then show ?case by simp
next
  case (Cons x xs)
  then obtain y ys' where fx: "f i x = Inr y" and rest: "emap_from (Suc i) f xs = Inr ys'"
    and ys: "ys = y # ys'"
    by (auto simp: ebind_eq_Inr_iff)
  show ?case
  proof (cases k)
    case 0
    with fx ys show ?thesis by simp
  next
    case (Suc k')
    with Cons.prems have "k' < length xs" by simp
    from Cons.IH [OF rest this] Suc ys show ?thesis by simp
  qed
qed

lemma emap_from_all_Inr:
  assumes "\<And>k. k < length xs \<Longrightarrow> f (i + k) (xs ! k) = Inr (g (i + k) (xs ! k))"
  shows "emap_from i f xs = Inr (map2 g [i..<i + length xs] xs)"
  using assms
proof (induction xs arbitrary: i)
  case Nil
  then show ?case by simp
next
  case (Cons x xs)
  have hd: "f i x = Inr (g i x)" using Cons.prems [of 0] by simp
  have "\<And>k. k < length xs \<Longrightarrow> f (Suc i + k) (xs ! k) = Inr (g (Suc i + k) (xs ! k))"
    using Cons.prems by (metis Suc_less_eq add_Suc_right add_Suc_shift length_Cons nth_Cons_Suc)
  then have tl: "emap_from (Suc i) f xs = Inr (map2 g [Suc i..<Suc i + length xs] xs)"
    by (rule Cons.IH)
  have "[i..<i + length (x # xs)] = i # [Suc i..<Suc i + length xs]"
    by (simp add: upt_rec)
  with hd tl show ?case by simp
qed

lemma emap_from_Inr_exists:
  "(\<And>k. k < length xs \<Longrightarrow> \<exists>y. f (i + k) (xs ! k) = Inr y) \<Longrightarrow> \<exists>ys. emap_from i f xs = Inr ys"
proof (induction xs arbitrary: i)
  case Nil
  then show ?case by simp
next
  case (Cons x xs)
  from Cons.prems [of 0] obtain y where y: "f i x = Inr y" by auto
  have "\<And>k. k < length xs \<Longrightarrow> \<exists>y. f (Suc i + k) (xs ! k) = Inr y"
    using Cons.prems by (metis Suc_less_eq add_Suc_right add_Suc_shift length_Cons nth_Cons_Suc)
  then obtain ys where "emap_from (Suc i) f xs = Inr ys" using Cons.IH by blast
  with y show ?case by simp
qed

lemma emap_const_Inr:
  "\<forall>x \<in> set xs. f x = Inr (g x) \<Longrightarrow> emap_from i (\<lambda>_. f) xs = Inr (map g xs)"
  by (induction xs arbitrary: i) simp_all

lemma emap_from_Inl_first:
  "emap_from i f xs = Inl e \<Longrightarrow>
     \<exists>k < length xs. f (i + k) (xs ! k) = Inl e \<and> (\<forall>j < k. \<exists>y. f (i + j) (xs ! j) = Inr y)"
proof (induction xs arbitrary: i)
  case Nil
  then show ?case by simp
next
  case (Cons x xs)
  show ?case
  proof (cases "f i x")
    case (Inl e')
    with Cons.prems show ?thesis by auto
  next
    case (Inr y)
    with Cons.prems have "emap_from (Suc i) f xs = Inl e" by (simp add: ebind_eq_Inl_iff)
    then obtain k where k: "k < length xs" "f (Suc i + k) (xs ! k) = Inl e"
      and before: "\<forall>j < k. \<exists>y. f (Suc i + j) (xs ! j) = Inr y"
      using Cons.IH by blast
    have "\<forall>j < Suc k. \<exists>y. f (i + j) ((x # xs) ! j) = Inr y"
    proof (intro allI impI)
      fix j assume "j < Suc k"
      with Inr before show "\<exists>y. f (i + j) ((x # xs) ! j) = Inr y"
        by (cases j) auto
    qed
    with k show ?thesis by (intro exI [of _ "Suc k"]) auto
  qed
qed

lemma emap_from_first_Inl:
  "f i x = Inl e \<Longrightarrow> emap_from i f (x # xs) = Inl e"
  by simp

section \<open>Decimal digit strings\<close>

text \<open>
  \<open>\d\<close> in a JavaScript regular expression without the \<open>u\<close> flag is the ASCII
  class \<open>[0-9]\<close>; \<open>parseInt(s, 10)\<close> of such a string is its decimal value.
\<close>

definition is_digit :: "char \<Rightarrow> bool" where
  "is_digit c \<longleftrightarrow> 48 \<le> (of_char c :: nat) \<and> (of_char c :: nat) \<le> 57"

definition digit_val :: "char \<Rightarrow> nat" where
  "digit_val c = of_char c - 48"

definition digit_char :: "nat \<Rightarrow> char" where
  "digit_char d = char_of (48 + d)"

definition digits_value :: "string \<Rightarrow> nat" where
  "digits_value ds = foldl (\<lambda>acc c. 10 * acc + digit_val c) 0 ds"

fun nat_digits :: "nat \<Rightarrow> string" where
  "nat_digits n = (if n < 10 then [digit_char n] else nat_digits (n div 10) @ [digit_char (n mod 10)])"

declare nat_digits.simps [simp del]

lemma of_char_digit_char [simp]: "d < 10 \<Longrightarrow> (of_char (digit_char d) :: nat) = 48 + d"
  by (simp add: digit_char_def)

lemma digit_char_simps [simp]:
  "digit_char 0 = CHR ''0''" "digit_char 1 = CHR ''1''" "digit_char 2 = CHR ''2''"
  "digit_char 3 = CHR ''3''" "digit_char 4 = CHR ''4''" "digit_char 5 = CHR ''5''"
  "digit_char 6 = CHR ''6''" "digit_char 7 = CHR ''7''" "digit_char 8 = CHR ''8''"
  "digit_char 9 = CHR ''9''" "digit_char (Suc 0) = CHR ''1''"
  by code_simp+

lemma is_digit_digit_char [simp]: "d < 10 \<Longrightarrow> is_digit (digit_char d)"
  by (simp add: is_digit_def)

lemma digit_val_digit_char [simp]: "d < 10 \<Longrightarrow> digit_val (digit_char d) = d"
  by (simp add: digit_val_def)

lemma digit_char_inj: "d < 10 \<Longrightarrow> e < 10 \<Longrightarrow> digit_char d = digit_char e \<longleftrightarrow> d = e"
  by (metis digit_val_digit_char)

lemma digits_value_append:
  "digits_value (xs @ ys) = digits_value xs * 10 ^ length ys + digits_value ys"
proof (induction ys rule: rev_induct)
  case Nil
  then show ?case by (simp add: digits_value_def)
next
  case (snoc y ys)
  then show ?case by (simp add: digits_value_def algebra_simps)
qed

lemma digits_value_single [simp]: "digits_value [c] = digit_val c"
  by (simp add: digits_value_def)

lemma digits_value_nat_digits [simp]: "digits_value (nat_digits n) = n"
proof (induction n rule: nat_digits.induct)
  case (1 n)
  show ?case
  proof (cases "n < 10")
    case True
    then show ?thesis by (simp add: nat_digits.simps [of n])
  next
    case False
    then have "digits_value (nat_digits n) = digits_value (nat_digits (n div 10)) * 10 + n mod 10"
      by (simp add: nat_digits.simps [of n] digits_value_append)
    with "1.IH" False show ?thesis by simp
  qed
qed

lemma nat_digits_ne [simp]: "nat_digits n \<noteq> []"
  by (subst nat_digits.simps) simp

lemma nat_digits_all_digits: "\<forall>c \<in> set (nat_digits n). is_digit c"
proof (induction n rule: nat_digits.induct)
  case (1 n)
  then show ?case by (subst nat_digits.simps) auto
qed

lemma nat_digits_is_digit [simp]: "c \<in> set (nat_digits n) \<Longrightarrow> is_digit c"
  using nat_digits_all_digits by blast

lemma takeWhile_digits_append:
  "(\<forall>c \<in> set ds. is_digit c) \<Longrightarrow> (rs = [] \<or> \<not> is_digit (hd rs)) \<Longrightarrow>
     takeWhile is_digit (ds @ rs) = ds \<and> dropWhile is_digit (ds @ rs) = rs"
  by (cases rs) (simp_all add: takeWhile_append2 dropWhile_append2)

section \<open>Strings\<close>

text \<open>\<open>Array.prototype.join(sep)\<close> on a list of strings.\<close>

fun join_with :: "string \<Rightarrow> string list \<Rightarrow> string" where
  "join_with sep [] = []"
| "join_with sep [s] = s"
| "join_with sep (s # ss) = s @ sep @ join_with sep ss"

lemma join_with_Cons_Cons: "join_with sep (s # t # ts) = s @ sep @ join_with sep (t # ts)"
  by simp

lemma join_with_infix:
  "s \<in> set ss \<Longrightarrow> \<exists>u v. join_with sep ss = u @ s @ v"
proof (induction sep ss rule: join_with.induct)
  case (1 sep)
  then show ?case by simp
next
  case (2 sep t)
  then have "join_with sep [t] = [] @ s @ []" by simp
  then show ?case by blast
next
  case (3 sep t u us)
  show ?case
  proof (cases "s = t")
    case True
    then show ?thesis by (metis append.left_neutral join_with_Cons_Cons)
  next
    case False
    with "3.prems" have "s \<in> set (u # us)" by simp
    then obtain a b where "join_with sep (u # us) = a @ s @ b" using "3.IH" by blast
    then show ?thesis by (metis append.assoc join_with_Cons_Cons)
  qed
qed

section \<open>Powers of ten\<close>

text \<open>
  A number that divides a power of ten divides one whose exponent is at most the
  number itself; this bounds the search for the decimal exponent of a fraction.
\<close>

lemma coprime_5_iff: "coprime (5::nat) c \<longleftrightarrow> \<not> 5 dvd c"
proof
  assume "coprime (5::nat) c"
  then show "\<not> 5 dvd c" by (metis coprime_absorb_left nat_dvd_1_iff_1 numeral_eq_one_iff semiring_norm(86))
next
  assume n5: "\<not> 5 dvd c"
  define d where "d = gcd (5::nat) c"
  have "d dvd 5" "d dvd c" by (simp_all add: d_def)
  then have "d \<le> 5" "0 < d" by (auto simp: dvd_imp_le intro: Nat.gr0I)
  then have "d = 1 \<or> d = 2 \<or> d = 3 \<or> d = 4 \<or> d = 5" by auto
  with \<open>d dvd 5\<close> \<open>d dvd c\<close> n5 have "d = 1" by auto
  then show "coprime (5::nat) c" by (simp add: d_def coprime_iff_gcd_eq_1)
qed

lemma pow10_dvd_step:
  fixes b K :: nat
  assumes "b dvd 10 ^ Suc K" and "\<not> b dvd 10 ^ K"
  shows "2 ^ Suc K \<le> b"
proof -
  obtain c where c: "10 ^ Suc K = b * c" using assms(1) by (auto elim: dvdE)
  have b0: "0 < b" using c by (cases b) auto
  have split: "(10::nat) ^ Suc K = 2 ^ Suc K * 5 ^ Suc K" by (simp flip: power_mult_distrib)
  have "\<not> (2 dvd c \<and> 5 dvd c)"
  proof
    assume "2 dvd c \<and> 5 dvd c"
    then have "10 dvd c" by presburger
    then obtain c' where "c = 10 * c'" by (auto elim: dvdE)
    then have "10 ^ K = b * c'" using c by simp
    then show False using assms(2) by simp
  qed
  then consider "\<not> 2 dvd c" | "\<not> 5 dvd c" by blast
  then show ?thesis
  proof cases
    case 1
    have "coprime (2 ^ Suc K) c" using 1 by (simp add: coprime_left_2_iff_odd)
    moreover have "2 ^ Suc K dvd b * c" using c split by (metis dvd_triv_left)
    ultimately have "2 ^ Suc K dvd b" by (simp add: coprime_dvd_mult_left_iff)
    then show ?thesis using b0 by (simp add: dvd_imp_le)
  next
    case 2
    have "coprime (5 ^ Suc K) c" using 2 by (simp add: coprime_5_iff)
    moreover have "5 ^ Suc K dvd b * c" using c split by (metis dvd_triv_right)
    ultimately have "5 ^ Suc K dvd b" by (simp add: coprime_dvd_mult_left_iff)
    then have "5 ^ Suc K \<le> b" using b0 by (simp add: dvd_imp_le)
    moreover have "(2::nat) ^ Suc K \<le> 5 ^ Suc K" by (rule power_mono) simp_all
    ultimately show ?thesis by linarith
  qed
qed

lemma pow10_dvd_bound: "(b::nat) dvd 10 ^ K \<Longrightarrow> \<exists>k \<le> b. b dvd 10 ^ k"
proof (induction K)
  case 0
  then show ?case by auto
next
  case (Suc K)
  show ?case
  proof (cases "b dvd 10 ^ K")
    case True
    then show ?thesis by (rule Suc.IH)
  next
    case False
    then have "2 ^ Suc K \<le> b" using Suc.prems by (rule pow10_dvd_step [rotated])
    moreover have "Suc K < 2 ^ Suc K" by (rule less_exp)
    ultimately show ?thesis using Suc.prems by (intro exI [of _ "Suc K"]) simp
  qed
qed

end
