(* ===== verification/JsValue.thy ===== *)
theory JsValue
  imports Prelude
begin

text \<open>
  The JavaScript values the program handles.  Every value it reads comes from a
  parsed JSON document (\<open>req.body\<close>, the two \<open>ky ... .json()\<close> responses), so
  a value is a parsed JSON value, plus \<open>undefined\<close>, which a missing property reads
  as.  Numbers are decimals \<open>m \<cdot> 10^e\<close> as the JSON text writes them: the rounding
  to IEEE-754 doubles is not modelled (see the header of \<open>Spec2Isabelle\<close>).
  The theory gives the operations of the language the code uses on such values:
  truthiness and \<open>||\<close>, property access (which throws on \<open>undefined\<close> and
  \<open>null\<close>), \<open>.map\<close> on a value, \<open>ToString\<close> with \<open>Number::toString\<close>, and
  \<open>JSON.stringify\<close>.
\<close>

section \<open>Values and exceptions\<close>

datatype json =
    JUndefined
  | JNull
  | JBool bool
  | JNumber int int
  | JString string
  | JArray "json list"
  | JObject "(string \<times> json) list"

text \<open>
  \<open>JNumber m e\<close> is the number \<open>m \<cdot> 10^e\<close>.  An object is the list of its own
  properties in enumeration order; the parser keeps one entry per key.
\<close>

datatype js_error =
    TypeError string
  | RangeError string
  | SyntaxError string
  | Error string

fun error_message :: "js_error \<Rightarrow> string" where
  "error_message (TypeError m) = m"
| "error_message (RangeError m) = m"
| "error_message (SyntaxError m) = m"
| "error_message (Error m) = m"

definition nat_num :: "nat \<Rightarrow> json" where
  "nat_num n = JNumber (int n) 0"

definition squote :: char where
  "squote = CHR 0x27"

text \<open>V8's message for reading a property of \<open>undefined\<close> or \<open>null\<close>.\<close>

definition read_msg :: "string \<Rightarrow> string \<Rightarrow> string" where
  "read_msg base p =
     ''Cannot read properties of '' @ base @ '' (reading '' @ [squote] @ p @ [squote] @ '')''"

section \<open>Truthiness and logical or\<close>

fun truthy :: "json \<Rightarrow> bool" where
  "truthy JUndefined = False"
| "truthy JNull = False"
| "truthy (JBool b) = b"
| "truthy (JNumber m e) = (m \<noteq> 0)"
| "truthy (JString s) = (s \<noteq> [])"
| "truthy (JArray xs) = True"
| "truthy (JObject kvs) = True"

text \<open>\<open>a || b\<close> returns \<open>a\<close> itself when it is truthy, else \<open>b\<close>.\<close>

definition js_or :: "json \<Rightarrow> json \<Rightarrow> json" where
  "js_or a b = (if truthy a then a else b)"

fun nullish :: "json \<Rightarrow> bool" where
  "nullish JUndefined = True"
| "nullish JNull = True"
| "nullish _ = False"

lemma truthy_js_or: "truthy (js_or a b) \<longleftrightarrow> truthy a \<or> truthy b"
  by (simp add: js_or_def)

lemma js_or_truthy [simp]: "truthy a \<Longrightarrow> js_or a b = a"
  and js_or_falsy [simp]: "\<not> truthy a \<Longrightarrow> js_or a b = b"
  by (simp_all add: js_or_def)

lemma nullish_not_truthy: "nullish v \<Longrightarrow> \<not> truthy v"
  by (cases v) simp_all

section \<open>Property access\<close>

text \<open>
  A property name that is a canonical array index (\<open>"0"\<close>, \<open>"17"\<close>, no leading
  zero) reads an element of an array or a code unit of a string.
\<close>

definition array_index :: "string \<Rightarrow> nat option" where
  "array_index p =
     (if p \<noteq> [] \<and> list_all is_digit p \<and> (hd p \<noteq> CHR ''0'' \<or> p = ''0'')
      then Some (digits_value p) else None)"

text \<open>
  \<open>v.p\<close> and \<open>v[p]\<close>.  Reading any property of \<open>undefined\<close> or \<open>null\<close> throws a
  \<open>TypeError\<close>; a missing own property reads as \<open>undefined\<close>.  The properties
  the program reads (\<open>data\<close>, \<open>errors\<close>, \<open>itineraries\<close>, \<open>segments\<close>, ...)
  are none of \<open>Object.prototype\<close>'s, so inherited properties are not modelled.
\<close>

fun get_prop :: "json \<Rightarrow> string \<Rightarrow> js_error + json" where
  "get_prop JUndefined p = Inl (TypeError (read_msg ''undefined'' p))"
| "get_prop JNull p = Inl (TypeError (read_msg ''null'' p))"
| "get_prop (JObject kvs) p = Inr (case map_of kvs p of Some v \<Rightarrow> v | None \<Rightarrow> JUndefined)"
| "get_prop (JArray xs) p =
     Inr (if p = ''length'' then nat_num (length xs)
          else case array_index p of
                 Some i \<Rightarrow> if i < length xs then xs ! i else JUndefined
               | None \<Rightarrow> JUndefined)"
| "get_prop (JString s) p =
     Inr (if p = ''length'' then nat_num (length s)
          else case array_index p of
                 Some i \<Rightarrow> if i < length s then JString [s ! i] else JUndefined
               | None \<Rightarrow> JUndefined)"
| "get_prop (JNumber m e) p = Inr JUndefined"
| "get_prop (JBool b) p = Inr JUndefined"

text \<open>Optional chaining \<open>v?.p\<close>: \<open>undefined\<close> instead of the exception.\<close>

definition get_opt :: "json \<Rightarrow> string \<Rightarrow> json" where
  "get_opt v p = (case get_prop v p of Inl _ \<Rightarrow> JUndefined | Inr r \<Rightarrow> r)"

text \<open>
  \<open>v.map(f)\<close>: an array maps its elements; \<open>undefined\<close>/\<open>null\<close> throw on reading
  \<open>map\<close>; any other value has no callable \<open>map\<close>.  \<open>expr\<close> is the source text
  of \<open>v\<close>, which V8 puts in the message.
\<close>

definition call_map :: "string \<Rightarrow> json \<Rightarrow> (json \<Rightarrow> js_error + 'b) \<Rightarrow> js_error + 'b list" where
  "call_map expr v f =
     (case v of
        JArray xs \<Rightarrow> emap f xs
      | JUndefined \<Rightarrow> Inl (TypeError (read_msg ''undefined'' ''map''))
      | JNull \<Rightarrow> Inl (TypeError (read_msg ''null'' ''map''))
      | _ \<Rightarrow> Inl (TypeError (expr @ ''.map is not a function'')))"

lemma get_prop_nullish: "nullish v \<Longrightarrow> \<exists>m. get_prop v p = Inl (TypeError m)"
  by (cases v) simp_all

lemma get_prop_not_nullish: "\<not> nullish v \<Longrightarrow> \<exists>r. get_prop v p = Inr r"
  by (cases v) simp_all

lemma get_prop_JObject_key [simp, js_simps]:
  "map_of kvs p = Some v \<Longrightarrow> get_prop (JObject kvs) p = Inr v"
  by simp

lemma get_prop_JObject_missing [simp, js_simps]:
  "map_of kvs p = None \<Longrightarrow> get_prop (JObject kvs) p = Inr JUndefined"
  by simp

lemma array_index_zero [simp]: "array_index ''0'' = Some 0"
  by (simp add: array_index_def is_digit_def digit_val_def)

lemma get_prop_JArray_0 [simp, js_simps]:
  "get_prop (JArray (x # xs)) ''0'' = Inr x"
  by simp

lemma call_map_JArray [simp, js_simps]: "call_map expr (JArray xs) f = emap f xs"
  by (simp add: call_map_def)

section \<open>Number::toString\<close>

text \<open>
  Trailing zeros of the coefficient move into the exponent: \<open>m \<cdot> 10^e\<close> with
  \<open>m\<close> not divisible by 10 gives the digit string \<open>s\<close> of ECMAScript's
  Number::toString, and \<open>n = length s + e\<close>.
\<close>

function strip_zeros :: "nat \<Rightarrow> int \<Rightarrow> nat \<times> int" where
  "strip_zeros m e = (if m \<noteq> 0 \<and> m mod 10 = 0 then strip_zeros (m div 10) (e + 1) else (m, e))"
  by pat_completeness auto
termination
  by (relation "measure fst") auto

declare strip_zeros.simps [simp del]

definition pos_num_to_string :: "nat \<Rightarrow> int \<Rightarrow> string" where
  "pos_num_to_string m e =
     (case strip_zeros m e of (m', e') \<Rightarrow>
       let s = nat_digits m'; k = int (length s); n = k + e' in
       if k \<le> n \<and> n \<le> 21 then s @ replicate (nat (n - k)) CHR ''0''
       else if 0 < n \<and> n \<le> 21 then take (nat n) s @ ''.'' @ drop (nat n) s
       else if - 6 < n \<and> n \<le> 0 then ''0.'' @ replicate (nat (- n)) CHR ''0'' @ s
       else let x = n - 1;
                sg = (if 0 \<le> x then ''+'' else ''-'');
                xd = nat_digits (nat \<bar>x\<bar>)
            in if k = 1 then s @ ''e'' @ sg @ xd
               else [hd s] @ ''.'' @ tl s @ ''e'' @ sg @ xd)"

definition num_to_string :: "int \<Rightarrow> int \<Rightarrow> string" where
  "num_to_string m e =
     (if m = 0 then ''0''
      else if m < 0 then ''-'' @ pos_num_to_string (nat (- m)) e
      else pos_num_to_string (nat m) e)"

section \<open>ToString\<close>

text \<open>
  \<open>String(v)\<close> and template-literal interpolation.  An array joins its elements
  with commas, \<open>undefined\<close> and \<open>null\<close> elements as the empty string.
\<close>

fun js_to_string :: "json \<Rightarrow> string" where
  "js_to_string JUndefined = ''undefined''"
| "js_to_string JNull = ''null''"
| "js_to_string (JBool b) = (if b then ''true'' else ''false'')"
| "js_to_string (JNumber m e) = num_to_string m e"
| "js_to_string (JString s) = s"
| "js_to_string (JArray xs) =
     join_with '','' (map (\<lambda>x. if nullish x then [] else js_to_string x) xs)"
| "js_to_string (JObject kvs) = ''[object Object]''"

text \<open>\<open>xs.join(sep)\<close>: \<open>undefined\<close> and \<open>null\<close> elements join as the empty string.\<close>

definition js_join :: "string \<Rightarrow> json list \<Rightarrow> string" where
  "js_join sep xs = join_with sep (map (\<lambda>x. if nullish x then [] else js_to_string x) xs)"

section \<open>JSON.stringify\<close>

definition hex_char :: "nat \<Rightarrow> char" where
  "hex_char d = (if d < 10 then digit_char d else char_of (87 + d))"

text \<open>The value of a hexadecimal digit, either case.\<close>

definition hex_val :: "char \<Rightarrow> nat option" where
  "hex_val c =
     (let n = (of_char c :: nat) in
      if 48 \<le> n \<and> n \<le> 57 then Some (n - 48)
      else if 65 \<le> n \<and> n \<le> 70 then Some (n - 55)
      else if 97 \<le> n \<and> n \<le> 102 then Some (n - 87)
      else None)"

text \<open>
  The escapes of JSON.stringify's QuoteJSONString: the two-character escapes, and
  \<open>\u00XX\<close> with lower-case hexadecimal for the other control characters.
\<close>

definition json_escape_char :: "char \<Rightarrow> string" where
  "json_escape_char c =
     (let n = (of_char c :: nat); bs = CHR 0x5C in
      if n = 0x22 then [bs, CHR 0x22]
      else if n = 0x5C then [bs, bs]
      else if n = 0x08 then [bs, CHR ''b'']
      else if n = 0x0C then [bs, CHR ''f'']
      else if n = 0x0A then [bs, CHR ''n'']
      else if n = 0x0D then [bs, CHR ''r'']
      else if n = 0x09 then [bs, CHR ''t'']
      else if n < 0x20 then [bs, CHR ''u'', CHR ''0'', CHR ''0'', hex_char (n div 16), hex_char (n mod 16)]
      else [c])"

definition json_quote :: "string \<Rightarrow> string" where
  "json_quote s = [CHR 0x22] @ concat (map json_escape_char s) @ [CHR 0x22]"

text \<open>
  The text of a value, \<open>None\<close> for \<open>undefined\<close> (which JSON.stringify omits from
  objects, writes as \<open>null\<close> in arrays and returns as \<open>undefined\<close> at the top).
\<close>

fun json_text :: "json \<Rightarrow> string option" where
  "json_text JUndefined = None"
| "json_text JNull = Some ''null''"
| "json_text (JBool b) = Some (if b then ''true'' else ''false'')"
| "json_text (JNumber m e) = Some (num_to_string m e)"
| "json_text (JString s) = Some (json_quote s)"
| "json_text (JArray xs) =
     Some (''['' @ join_with '','' (map (\<lambda>x. case json_text x of None \<Rightarrow> ''null'' | Some t \<Rightarrow> t) xs) @ '']'')"
| "json_text (JObject kvs) =
     Some (''{'' @ join_with '',''
             (concat (map (\<lambda>(k, v). case json_text v of None \<Rightarrow> [] | Some t \<Rightarrow> [json_quote k @ '':'' @ t]) kvs))
           @ ''}'')"

definition json_stringify :: "json \<Rightarrow> json" where
  "json_stringify v = (case json_text v of None \<Rightarrow> JUndefined | Some t \<Rightarrow> JString t)"

section \<open>Number::toString on naturals\<close>

text \<open>
  Below \<open>10^21\<close> a natural number prints as its decimal digits, which is what
  the template literals \<open>`am-${idx}`\<close> and \<open>`${...}${seg.number}`\<close> rely on.
\<close>

lemma nat_digits_mult_10: "0 < m \<Longrightarrow> nat_digits (m * 10) = nat_digits m @ [CHR ''0'']"
  by (subst nat_digits.simps) simp

lemma nat_digits_mult_pow10:
  "0 < m \<Longrightarrow> nat_digits (m * 10 ^ j) = nat_digits m @ replicate j CHR ''0''"
proof (induction j)
  case 0
  then show ?case by simp
next
  case (Suc j)
  have "nat_digits (m * 10 ^ Suc j) = nat_digits ((m * 10 ^ j) * 10)"
    by (simp add: ac_simps)
  also have "\<dots> = nat_digits (m * 10 ^ j) @ [CHR ''0'']"
    using Suc.prems by (simp add: nat_digits_mult_10)
  finally show ?case using Suc by (simp add: replicate_append_same)
qed

lemma strip_zeros_spec:
  "strip_zeros m e = (m', e') \<Longrightarrow> 0 < m \<Longrightarrow> \<exists>j. m = m' * 10 ^ j \<and> e' = e + int j \<and> 0 < m'"
proof (induction m e arbitrary: m' e' rule: strip_zeros.induct)
  case (1 m e)
  show ?case
  proof (cases "m \<noteq> 0 \<and> m mod 10 = 0")
    case True
    with "1.prems" have sz: "strip_zeros (m div 10) (e + 1) = (m', e')" and pos: "0 < m div 10"
      by (auto simp: strip_zeros.simps [of m e])
    from "1.IH" [OF True sz pos] obtain j where "m div 10 = m' * 10 ^ j" "e' = e + 1 + int j" "0 < m'"
      by blast
    with True have "m = m' * 10 ^ Suc j \<and> e' = e + int (Suc j) \<and> 0 < m'"
      by (auto simp: ac_simps)
    then show ?thesis by blast
  next
    case False
    with "1.prems" show ?thesis by (auto simp: strip_zeros.simps [of m e])
  qed
qed

lemma length_nat_digits: "n < 10 ^ k \<Longrightarrow> 0 < k \<Longrightarrow> length (nat_digits n) \<le> k"
proof (induction n arbitrary: k rule: nat_digits.induct)
  case (1 n)
  show ?case
  proof (cases "n < 10")
    case True
    with "1.prems" show ?thesis by (simp add: nat_digits.simps [of n])
  next
    case False
    then obtain k' where k: "k = Suc k'" using "1.prems" by (cases k) auto
    from False "1.prems" k have "n div 10 < 10 ^ k'" by (simp add: less_mult_imp_div_less mult.commute)
    moreover from False "1.prems" k have "0 < k'" by (cases k') auto
    ultimately have "length (nat_digits (n div 10)) \<le> k'" using "1.IH" False by blast
    with False k show ?thesis by (simp add: nat_digits.simps [of n])
  qed
qed

lemma num_to_string_nat: "n < 10 ^ 21 \<Longrightarrow> num_to_string (int n) 0 = nat_digits n"
proof (cases "n = 0")
  case True
  then show ?thesis by (simp add: num_to_string_def nat_digits.simps)
next
  case False
  assume small: "n < 10 ^ 21"
  obtain m' e' where sz: "strip_zeros n 0 = (m', e')" by fastforce
  with False obtain j where n: "n = m' * 10 ^ j" and e': "e' = int j" and m': "0 < m'"
    using strip_zeros_spec [of n 0 m' e'] by auto
  have ds: "nat_digits n = nat_digits m' @ replicate j CHR ''0''"
    using n m' by (simp add: nat_digits_mult_pow10)
  have "length (nat_digits n) \<le> 21" using small by (simp add: length_nat_digits)
  then have le: "int (length (nat_digits m')) + int j \<le> 21" using ds by simp
  show ?thesis
    using False le sz e' ds by (simp add: num_to_string_def pos_num_to_string_def Let_def)
qed

end
