(* ===== verification/Duration.thy ===== *)
theory Duration
  imports JsValue
begin

text \<open>
  \<open>parseISODurationToMinutes\<close> (src/index.js, lines 26--31 and 108--113):
  \<open>String(iso).match(/PT(?:(\d+)H)?(?:(\d+)M)?/)\<close>, then the two capture groups
  through \<open>parseInt\<close>, defaulting to 0.  The theory has two models of the match:
  \<^item> \<open>re_exec\<close>, a backtracking matcher in continuation-passing style for the
    fragment of ECMAScript regular expressions the literal uses (characters, \<open>\d+\<close>,
    greedy \<open>?\<close>, capturing groups), following the specification's Matcher and
    RepeatMatcher, and the literal as a term \<open>pt_regex\<close> of it;
  \<^item> \<open>pt_match\<close>, the direct reading: the leftmost \<open>PT\<close>, then an optional
    maximal digit run ended by \<open>H\<close>, then one ended by \<open>M\<close>.
  \<open>re_exec_pt_regex\<close> proves them equal on every string; the parser uses the
  direct one.
\<close>

section \<open>Reference semantics of the regular expression\<close>

datatype regex =
    RChar char
  | RDigits
  | RSeq regex regex
  | ROpt regex
  | RGroup nat regex

type_synonym caps = "nat \<Rightarrow> string option"

primrec groups :: "regex \<Rightarrow> nat list" where
  "groups (RChar c) = []"
| "groups RDigits = []"
| "groups (RSeq a b) = groups a @ groups b"
| "groups (ROpt a) = groups a"
| "groups (RGroup i a) = i # groups a"

definition clear_caps :: "nat list \<Rightarrow> caps \<Rightarrow> caps" where
  "clear_caps is cap = (\<lambda>i. if i \<in> set is then None else cap i)"

text \<open>
  \<open>\d+\<close> after its first digit: one more digit if there is one and the rest
  succeeds from there, else the continuation here (greedy, backtracking).
\<close>

fun digits_then :: "string \<Rightarrow> caps \<Rightarrow> (string \<Rightarrow> caps \<Rightarrow> caps option) \<Rightarrow> caps option" where
  "digits_then [] cap k = k [] cap"
| "digits_then (c # s) cap k =
     (if is_digit c then (case digits_then s cap k of Some r \<Rightarrow> Some r | None \<Rightarrow> k (c # s) cap)
      else k (c # s) cap)"

text \<open>
  \<open>mt r s cap k\<close>: match \<open>r\<close> at the remaining input \<open>s\<close> with captures
  \<open>cap\<close>, and call the continuation \<open>k\<close> on the state after it.  A greedy
  \<open>?\<close> tries its atom first, with the atom's groups cleared and an empty
  iteration refused, and falls back to the continuation.
\<close>

primrec mt :: "regex \<Rightarrow> string \<Rightarrow> caps \<Rightarrow> (string \<Rightarrow> caps \<Rightarrow> caps option) \<Rightarrow> caps option" where
  "mt (RChar c) s cap k = (case s of [] \<Rightarrow> None | x # xs \<Rightarrow> if x = c then k xs cap else None)"
| "mt RDigits s cap k = (case s of [] \<Rightarrow> None | x # xs \<Rightarrow> if is_digit x then digits_then xs cap k else None)"
| "mt (RSeq a b) s cap k = mt a s cap (\<lambda>s' cap'. mt b s' cap' k)"
| "mt (ROpt a) s cap k =
     (case mt a s (clear_caps (groups a) cap)
             (\<lambda>s' cap'. if length s' = length s then None else k s' cap') of
        Some r \<Rightarrow> Some r
      | None \<Rightarrow> k s cap)"
| "mt (RGroup i a) s cap k =
     mt a s cap (\<lambda>s' cap'. k s' (cap'(i := Some (take (length s - length s') s))))"

text \<open>
  \<open>RegExpBuiltinExec\<close> for a non-global expression: try the match at index 0, 1,
  ..., up to the length, and return the captures of the first that succeeds.
\<close>

fun re_exec :: "regex \<Rightarrow> string \<Rightarrow> caps option" where
  "re_exec r [] = mt r [] (\<lambda>_. None) (\<lambda>_ cap. Some cap)"
| "re_exec r (c # cs) =
     (case mt r (c # cs) (\<lambda>_. None) (\<lambda>_ cap. Some cap) of
        Some x \<Rightarrow> Some x
      | None \<Rightarrow> re_exec r cs)"

text \<open>The literal \<open>/PT(?:(\d+)H)?(?:(\d+)M)?/\<close>.\<close>

definition pt_regex :: regex where
  "pt_regex =
     RSeq (RChar CHR ''P'')
      (RSeq (RChar CHR ''T'')
        (RSeq (ROpt (RSeq (RGroup 1 RDigits) (RChar CHR ''H'')))
              (ROpt (RSeq (RGroup 2 RDigits) (RChar CHR ''M'')))))"

section \<open>The direct model\<close>

text \<open>The input after the leftmost occurrence of \<open>PT\<close>.\<close>

fun find_pt :: "string \<Rightarrow> string option" where
  "find_pt [] = None"
| "find_pt (c # cs) =
     (if c = CHR ''P'' \<and> cs \<noteq> [] \<and> hd cs = CHR ''T'' then Some (tl cs) else find_pt cs)"

text \<open>\<open>(?:(\d+)U)?\<close>: the maximal digit run if a \<open>U\<close> follows it.\<close>

definition unit_group :: "char \<Rightarrow> string \<Rightarrow> string option \<times> string" where
  "unit_group u s =
     (let ds = takeWhile is_digit s; r = dropWhile is_digit s in
      if ds \<noteq> [] \<and> r \<noteq> [] \<and> hd r = u then (Some ds, tl r) else (None, s))"

definition pt_match :: "string \<Rightarrow> (string option \<times> string option) option" where
  "pt_match s =
     (case find_pt s of
        None \<Rightarrow> None
      | Some r \<Rightarrow> (case unit_group CHR ''H'' r of (h, r') \<Rightarrow> Some (h, fst (unit_group CHR ''M'' r'))))"

definition pt_caps :: "string option \<times> string option \<Rightarrow> caps" where
  "pt_caps hm = (\<lambda>i. if i = 1 then fst hm else if i = 2 then snd hm else None)"

section \<open>parseISODurationToMinutes\<close>

text \<open>
  \<open>m?.[1] ? parseInt(m[1], 10) : 0\<close>: a capture is a non-empty digit string, so
  it is truthy exactly when the group matched.
\<close>

definition group_minutes :: "(string option \<times> string option) option \<Rightarrow> (string option \<times> string option \<Rightarrow> string option) \<Rightarrow> nat" where
  "group_minutes m sel = (case m of Some hm \<Rightarrow> (case sel hm of Some ds \<Rightarrow> digits_value ds | None \<Rightarrow> 0) | None \<Rightarrow> 0)"

definition parseISODurationToMinutes :: "json \<Rightarrow> nat" where
  "parseISODurationToMinutes v =
     (let m = pt_match (js_to_string v);
          h = group_minutes m fst;
          min' = group_minutes m snd
      in h * 60 + min')"

text \<open>Captures as the matcher records them, group by group.\<close>

definition set_cap :: "nat \<Rightarrow> string option \<Rightarrow> caps \<Rightarrow> caps" where
  "set_cap i v cap = (case v of None \<Rightarrow> cap | Some ds \<Rightarrow> cap(i := Some ds))"

section \<open>Duration strings\<close>

text \<open>
  \<open>pt_text h m\<close> is the text \<open>PT[<h>H][<m>M]\<close> of the restricted ISO-8601 shape,
  each component an optional digit string.
\<close>

definition pt_text :: "string option \<Rightarrow> string option \<Rightarrow> string" where
  "pt_text h m = ''PT'' @ (case h of Some hs \<Rightarrow> hs @ ''H'' | None \<Rightarrow> []) @ (case m of Some ms \<Rightarrow> ms @ ''M'' | None \<Rightarrow> [])"

definition digit_group :: "string option \<Rightarrow> bool" where
  "digit_group g = (case g of None \<Rightarrow> True | Some ds \<Rightarrow> ds \<noteq> [] \<and> list_all is_digit ds)"

definition group_value :: "string option \<Rightarrow> nat" where
  "group_value g = (case g of None \<Rightarrow> 0 | Some ds \<Rightarrow> digits_value ds)"

section \<open>The matcher and the direct model agree\<close>


lemma take_length_dropWhile: "take (length s - length (dropWhile P s)) s = takeWhile P s"
proof (induction s)
  case Nil
  then show ?case by simp
next
  case (Cons c s)
  then show ?case
    by (cases "P c") (simp_all add: Suc_diff_le length_dropWhile_le)
qed

lemma digits_then_char:
  assumes "\<not> is_digit u"
  shows "digits_then s cap (\<lambda>s' cap'. mt (RChar u) s' (g s' cap') k) =
         (let r = dropWhile is_digit s in if r \<noteq> [] \<and> hd r = u then k (tl r) (g r cap) else None)"
proof (induction s)
  case Nil
  then show ?case by simp
next
  case (Cons c s)
  show ?case
  proof (cases "is_digit c")
    case True
    with assms have "c \<noteq> u" by auto
    with True Cons.IH show ?thesis by (simp split: option.split)
  next
    case False
    then show ?thesis by simp
  qed
qed

lemma mt_group_digits_char:
  assumes "\<not> is_digit u"
  shows "mt (RSeq (RGroup i RDigits) (RChar u)) s cap k =
         (case unit_group u s of (Some ds, r) \<Rightarrow> k r (cap(i := Some ds)) | (None, r) \<Rightarrow> None)"
proof (cases s)
  case Nil
  then show ?thesis by (simp add: unit_group_def)
next
  case (Cons c s')
  show ?thesis
  proof (cases "is_digit c")
    case False
    with Cons show ?thesis by (simp add: unit_group_def)
  next
    case True
    have td: "take (Suc (length s') - length (dropWhile is_digit s')) (c # s') = c # takeWhile is_digit s'"
      using True take_length_dropWhile [of "c # s'" is_digit] by simp
    show ?thesis
      using True Cons digits_then_char [OF assms, of s' cap
          "\<lambda>s'' cap'. cap'(i := Some (take (length (c # s') - length s'') (c # s')))" k]
      by (simp add: unit_group_def Let_def td)
  qed
qed

lemma unit_group_shorter: "unit_group u s = (Some ds, r) \<Longrightarrow> length r < length s"
proof -
  assume "unit_group u s = (Some ds, r)"
  then have "r = tl (dropWhile is_digit s)" and "dropWhile is_digit s \<noteq> []"
    by (auto simp: unit_group_def Let_def split: if_splits)
  then show ?thesis using length_dropWhile_le [of is_digit s] by (cases s) auto
qed

lemma mt_opt_unit:
  assumes "\<not> is_digit u"
  shows "mt (ROpt (RSeq (RGroup i RDigits) (RChar u))) s cap k =
         (case unit_group u s of
            (Some ds, r) \<Rightarrow> (case k r (cap(i := Some ds)) of Some x \<Rightarrow> Some x | None \<Rightarrow> k s cap)
          | (None, r) \<Rightarrow> k s cap)"
proof -
  have gi: "groups (RSeq (RGroup i RDigits) (RChar u)) = [i]" by simp
  have upd: "(clear_caps [i] cap)(i := v) = cap(i := v)" for v
    by (simp add: clear_caps_def fun_eq_iff)
  show ?thesis
  proof (cases "unit_group u s")
    case (Pair h r)
    show ?thesis
    proof (cases h)
      case None
      with Pair show ?thesis by (simp only: mt.simps(4) gi mt_group_digits_char [OF assms]) simp
    next
      case (Some ds)
      with Pair have "length r < length s" by (simp add: unit_group_shorter)
      with Pair Some show ?thesis
        by (simp only: mt.simps(4) gi mt_group_digits_char [OF assms]) (simp add: upd)
    qed
  qed
qed


lemma mt_opt_unit_total:
  assumes "\<not> is_digit u" and "\<And>s c. k s c = Some (f s c)"
  shows "mt (ROpt (RSeq (RGroup i RDigits) (RChar u))) s cap k =
         Some (f (snd (unit_group u s)) (set_cap i (fst (unit_group u s)) cap))"
proof (cases "unit_group u s")
  case (Pair h r)
  then have "r = s" if "h = None" using that by (auto simp: unit_group_def Let_def split: if_splits)
  with Pair show ?thesis
    by (cases h) (simp_all del: mt.simps add: mt_opt_unit [OF assms(1)] assms(2) set_cap_def)
qed

lemma not_digit_HM: "\<not> is_digit CHR ''H''" "\<not> is_digit CHR ''M''"
  by (simp_all add: is_digit_def)

lemma mt_pt_regex_PT:
  "mt pt_regex (CHR ''P'' # CHR ''T'' # r) cap (\<lambda>_ c. Some c) =
     Some (set_cap 2 (fst (unit_group CHR ''M'' (snd (unit_group CHR ''H'' r))))
             (set_cap 1 (fst (unit_group CHR ''H'' r)) cap))"
proof -
  have m: "mt (ROpt (RSeq (RGroup 2 RDigits) (RChar CHR ''M''))) s c (\<lambda>_ c. Some c) =
             Some (set_cap 2 (fst (unit_group CHR ''M'' s)) c)" for s c
    by (rule mt_opt_unit_total [OF not_digit_HM(2)]) simp
  show ?thesis
    unfolding pt_regex_def
    by (simp del: mt.simps(2,4,5) add: m mt_opt_unit_total [OF not_digit_HM(1)])
qed

lemma mt_pt_regex_not_PT:
  "\<not> (\<exists>r. s = CHR ''P'' # CHR ''T'' # r) \<Longrightarrow> mt pt_regex s cap k = None"
  unfolding pt_regex_def
  by (cases s rule: remdups_adj.cases) (auto split: list.split)

lemma re_exec_pt_regex_find_pt:
  "re_exec pt_regex s =
     (case find_pt s of
        None \<Rightarrow> None
      | Some r \<Rightarrow> Some (set_cap 2 (fst (unit_group CHR ''M'' (snd (unit_group CHR ''H'' r))))
                        (set_cap 1 (fst (unit_group CHR ''H'' r)) (\<lambda>_. None))))"
proof (induction s)
  case Nil
  then show ?case by (simp del: mt.simps add: mt_pt_regex_not_PT)
next
  case (Cons c cs)
  show ?case
  proof (cases "c = CHR ''P'' \<and> cs \<noteq> [] \<and> hd cs = CHR ''T''")
    case True
    then obtain r where "cs = CHR ''T'' # r" by (cases cs) auto
    with True show ?thesis by (simp del: mt.simps add: mt_pt_regex_PT)
  next
    case False
    then have "mt pt_regex (c # cs) (\<lambda>_. None) (\<lambda>_ cap. Some cap) = None"
      by (intro mt_pt_regex_not_PT) auto
    with False Cons.IH show ?thesis by (auto simp del: mt.simps)
  qed
qed

lemma pt_caps_set_cap: "pt_caps (h, m) = set_cap 2 m (set_cap 1 h (\<lambda>_. None))"
  by (auto simp: pt_caps_def set_cap_def fun_eq_iff split: option.split)

text \<open>C2. On every string, the backtracking matcher of ECMAScript run on the literal \<open>/PT(?:(\d+)H)?(?:(\d+)M)?/\<close> finds a match exactly when the direct model does, with the same two captures.\<close>

theorem re_exec_pt_regex: "re_exec pt_regex s = map_option pt_caps (pt_match s)"
  by (simp add: re_exec_pt_regex_find_pt pt_match_def pt_caps_set_cap split: option.split prod.split)

lemma find_pt_None_iff: "find_pt s = None \<longleftrightarrow> \<not> (\<exists>u v. s = u @ ''PT'' @ v)"
proof (induction s)
  case Nil
  then show ?case by simp
next
  case (Cons c cs)
  show ?case
  proof (cases "c = CHR ''P'' \<and> cs \<noteq> [] \<and> hd cs = CHR ''T''")
    case True
    then obtain r where "cs = CHR ''T'' # r" by (cases cs) auto
    with True have "c # cs = [] @ ''PT'' @ r" by simp
    with True show ?thesis by auto
  next
    case False
    have "(\<exists>u v. c # cs = u @ ''PT'' @ v) \<longleftrightarrow> (\<exists>u v. cs = u @ ''PT'' @ v)"
    proof
      assume "\<exists>u v. c # cs = u @ ''PT'' @ v"
      then obtain u v where uv: "c # cs = u @ ''PT'' @ v" by blast
      show "\<exists>u v. cs = u @ ''PT'' @ v"
      proof (cases u)
        case Nil
        with uv False show ?thesis by simp
      next
        case (Cons a u')
        with uv show ?thesis by auto
      qed
    next
      assume "\<exists>u v. cs = u @ ''PT'' @ v"
      then obtain u v where "cs = u @ ''PT'' @ v" by blast
      then have "c # cs = (c # u) @ ''PT'' @ v" by simp
      then show "\<exists>u v. c # cs = u @ ''PT'' @ v" by blast
    qed
    with False Cons.IH show ?thesis by auto
  qed
qed

lemma find_pt_append:
  "find_pt pre = None \<Longrightarrow> find_pt (pre @ CHR ''P'' # CHR ''T'' # rest) = Some rest"
proof (induction pre)
  case Nil
  then show ?case by simp
next
  case (Cons c cs)
  then have "find_pt cs = None" by (simp split: if_splits)
  moreover have "\<not> (c = CHR ''P'' \<and> hd (cs @ ''PT'' @ rest) = CHR ''T'')"
    using Cons.prems by (cases cs) (auto split: if_splits)
  ultimately show ?case using Cons.IH by auto
qed

lemma find_pt_append_no_P:
  "CHR ''P'' \<notin> set xs \<Longrightarrow> find_pt (xs @ ys) = find_pt ys"
  by (induction xs) auto

lemma unit_group_digits:
  "ds \<noteq> [] \<Longrightarrow> list_all is_digit ds \<Longrightarrow> \<not> is_digit u \<Longrightarrow> unit_group u (ds @ u # rest) = (Some ds, rest)"
  using takeWhile_digits_append [of ds "u # rest"] by (simp add: unit_group_def list_all_iff)

lemma unit_group_other:
  "ds \<noteq> [] \<Longrightarrow> list_all is_digit ds \<Longrightarrow> \<not> is_digit v \<Longrightarrow> v \<noteq> u \<Longrightarrow> unit_group u (ds @ v # rest) = (None, ds @ v # rest)"
  using takeWhile_digits_append [of ds "v # rest"] by (simp add: unit_group_def list_all_iff)

lemma unit_group_no_digit:
  "s = [] \<or> \<not> is_digit (hd s) \<Longrightarrow> unit_group u s = (None, s)"
  by (cases s) (auto simp: unit_group_def)

text \<open>C1. For every duration text \<open>PT[<h>H][<m>M]\<close> (each component an optional non-empty digit string) preceded by text without \<open>PT\<close> and followed by text that does not start with a digit, \<open>parseISODurationToMinutes\<close> returns \<open>60 * h + m\<close>, an absent component counting 0.\<close>

theorem parseISODurationToMinutes_PT:
  assumes "\<not> (\<exists>u v. pre = u @ ''PT'' @ v)"
    and "digit_group h" and "digit_group m"
    and "post = [] \<or> \<not> is_digit (hd post)"
  shows "parseISODurationToMinutes (JString (pre @ pt_text h m @ post)) = 60 * group_value h + group_value m"
proof -
  from assms(1) have "find_pt pre = None" using find_pt_None_iff by blast
  then have fp: "find_pt (pre @ pt_text h m @ post) =
      Some ((case h of Some hs \<Rightarrow> hs @ ''H'' | None \<Rightarrow> []) @ (case m of Some ms \<Rightarrow> ms @ ''M'' | None \<Rightarrow> []) @ post)"
    by (simp add: pt_text_def find_pt_append)
  have hM: "\<not> is_digit CHR ''H''" "\<not> is_digit CHR ''M''" "CHR ''M'' \<noteq> CHR ''H''"
    by (simp_all add: is_digit_def)
  show ?thesis
  proof (cases h)
    case None
    show ?thesis
    proof (cases m)
      case None
      with \<open>h = None\<close> fp assms(4) show ?thesis
        by (simp add: parseISODurationToMinutes_def pt_match_def group_minutes_def group_value_def unit_group_no_digit)
    next
      case (Some ms)
      with assms(3) have "ms \<noteq> []" "list_all is_digit ms" by (simp_all add: digit_group_def)
      with \<open>h = None\<close> Some fp show ?thesis
        by (simp add: parseISODurationToMinutes_def pt_match_def group_minutes_def group_value_def
            unit_group_other unit_group_digits hM)
    qed
  next
    case (Some hs)
    with assms(2) have hs: "hs \<noteq> []" "list_all is_digit hs" by (simp_all add: digit_group_def)
    show ?thesis
    proof (cases m)
      case None
      with Some hs fp assms(4) show ?thesis
        by (simp add: parseISODurationToMinutes_def pt_match_def group_minutes_def group_value_def
            unit_group_digits unit_group_no_digit hM)
    next
      case (Some ms)
      with assms(3) have "ms \<noteq> []" "list_all is_digit ms" by (simp_all add: digit_group_def)
      with \<open>h = Some hs\<close> Some hs fp show ?thesis
        by (simp add: parseISODurationToMinutes_def pt_match_def group_minutes_def group_value_def
            unit_group_digits hM)
    qed
  qed
qed

theorem parseISODurationToMinutes_PT_witness:
  "parseISODurationToMinutes (JString ''PT2H30M'') = 150 \<and>
   parseISODurationToMinutes (JString ''PT45M'') = 45 \<and>
   parseISODurationToMinutes (JString ''PT3H'') = 180"
proof -
  have nopre: "\<not> (\<exists>u v. ([] :: string) = u @ ''PT'' @ v)" by simp
  have g: "digit_group (Some ''2'')" "digit_group (Some ''30'')" "digit_group (Some ''45'')"
    "digit_group (Some ''3'')" "digit_group None"
    by (simp_all add: digit_group_def is_digit_def)
  have p: "([] :: string) = [] \<or> \<not> is_digit (hd [])" by simp
  have "parseISODurationToMinutes (JString ([] @ pt_text (Some ''2'') (Some ''30'') @ [])) = 60 * group_value (Some ''2'') + group_value (Some ''30'')"
    by (rule parseISODurationToMinutes_PT [OF nopre g(1) g(2) p])
  moreover have "parseISODurationToMinutes (JString ([] @ pt_text None (Some ''45'') @ [])) = 60 * group_value None + group_value (Some ''45'')"
    by (rule parseISODurationToMinutes_PT [OF nopre g(5) g(3) p])
  moreover have "parseISODurationToMinutes (JString ([] @ pt_text (Some ''3'') None @ [])) = 60 * group_value (Some ''3'') + group_value None"
    by (rule parseISODurationToMinutes_PT [OF nopre g(4) g(5) p])
  ultimately show ?thesis
    by (simp add: pt_text_def group_value_def digits_value_def digit_val_def)
qed

section \<open>The parser on well-formed and malformed input\<close>

text \<open>C16. A string in which \<open>PT\<close> does not occur parses to 0 minutes: malformed input degrades to zero instead of failing.\<close>

theorem parseISODurationToMinutes_no_PT:
  "\<not> (\<exists>u v. s = u @ ''PT'' @ v) \<Longrightarrow> parseISODurationToMinutes (JString s) = 0"
proof -
  assume "\<not> (\<exists>u v. s = u @ ''PT'' @ v)"
  then have "find_pt s = None" using find_pt_None_iff by blast
  then show ?thesis by (simp add: parseISODurationToMinutes_def pt_match_def group_minutes_def)
qed

theorem parseISODurationToMinutes_no_PT_witness:
  "parseISODurationToMinutes (JString ''garbage'') = 0"
proof -
  have "\<not> (\<exists>u v. ''garbage'' = u @ ''PT'' @ v)"
    using find_pt_None_iff [of "''garbage''"] by simp
  then show ?thesis by (rule parseISODurationToMinutes_no_PT)
qed

text \<open>C17. A duration with a day component, \<open>P<d>DT<rest>\<close> with no \<open>PT\<close> in the rest, parses to 0 minutes: the time components after the \<open>T\<close> are lost together with the days.\<close>

theorem parseISODurationToMinutes_day_component:
  assumes "ds \<noteq> []" and "list_all is_digit ds" and "\<not> (\<exists>u v. rest = u @ ''PT'' @ v)"
  shows "parseISODurationToMinutes (JString (''P'' @ ds @ ''DT'' @ rest)) = 0"
proof -
  have nd: "\<not> is_digit CHR ''P''" "\<not> is_digit CHR ''T''" by (simp_all add: is_digit_def)
  from assms(1,2) nd have "hd (ds @ ''DT'' @ rest) \<noteq> CHR ''T''" and "CHR ''P'' \<notin> set ds"
    by (cases ds; auto simp: list_all_iff)+
  moreover from assms(3) have "find_pt rest = None" using find_pt_None_iff by blast
  ultimately have "find_pt (''P'' @ ds @ ''DT'' @ rest) = None"
    using find_pt_append_no_P [of "ds @ ''DT''" rest] by simp
  then show ?thesis by (simp add: parseISODurationToMinutes_def pt_match_def group_minutes_def)
qed

theorem parseISODurationToMinutes_day_component_witness:
  "parseISODurationToMinutes (JString ''P1DT2H'') = 0"
proof -
  have "''1'' \<noteq> []" "list_all is_digit ''1''" "\<not> (\<exists>u v. ''2H'' = u @ ''PT'' @ v)"
    using find_pt_None_iff [of "''2H''"] by (simp_all add: is_digit_def)
  from parseISODurationToMinutes_day_component [OF this] show ?thesis by simp
qed

text \<open>A missing duration, \<open>undefined\<close> or \<open>null\<close>, parses to 0 minutes without an exception.\<close>

theorem parseISODurationToMinutes_nullish:
  "nullish v \<Longrightarrow> parseISODurationToMinutes v = 0"
  by (cases v) (simp_all add: parseISODurationToMinutes_def pt_match_def group_minutes_def)

theorem parseISODurationToMinutes_nullish_witness:
  "parseISODurationToMinutes JUndefined = 0 \<and> parseISODurationToMinutes JNull = 0"
  using parseISODurationToMinutes_nullish [of JUndefined] parseISODurationToMinutes_nullish [of JNull]
  by simp

end
