(* ===== verification/JsNumber.thy ===== *)
theory JsNumber
  imports JsValue
begin

text \<open>
  JavaScript numbers as the ranking computes with them: the results of
  \<open>parseFloat\<close>, differences, quotients and the \<open>Math.min\<close>/\<open>Math.max\<close> of
  a list.  A number is an exact rational, \<open>NaN\<close>, or one of the two infinities;
  IEEE-754 rounding and the sign of zero are not modelled.  The operations follow
  ECMAScript's Number::add, ::multiply, ::divide and the NaN rules of
  \<open>Math.min\<close>, \<open>Math.max\<close> and SortCompare.
\<close>

section \<open>Numbers and their arithmetic\<close>

datatype jsnum = Fin rat | NaN | PosInf | NegInf

fun js_neg :: "jsnum \<Rightarrow> jsnum" where
  "js_neg (Fin a) = Fin (- a)"
| "js_neg NaN = NaN"
| "js_neg PosInf = NegInf"
| "js_neg NegInf = PosInf"

fun js_add :: "jsnum \<Rightarrow> jsnum \<Rightarrow> jsnum" where
  "js_add NaN y = NaN"
| "js_add x NaN = NaN"
| "js_add (Fin a) (Fin b) = Fin (a + b)"
| "js_add PosInf NegInf = NaN"
| "js_add NegInf PosInf = NaN"
| "js_add PosInf y = PosInf"
| "js_add x PosInf = PosInf"
| "js_add NegInf y = NegInf"
| "js_add x NegInf = NegInf"

text \<open>\<open>x - y\<close> is \<open>x + (-y)\<close> (Number::subtract).\<close>

definition js_sub :: "jsnum \<Rightarrow> jsnum \<Rightarrow> jsnum" where
  "js_sub x y = js_add x (js_neg y)"

definition inf_of_sign :: "rat \<Rightarrow> jsnum" where
  "inf_of_sign a = (if 0 < a then PosInf else if a < 0 then NegInf else NaN)"

fun js_mul :: "jsnum \<Rightarrow> jsnum \<Rightarrow> jsnum" where
  "js_mul NaN y = NaN"
| "js_mul x NaN = NaN"
| "js_mul (Fin a) (Fin b) = Fin (a * b)"
| "js_mul (Fin a) PosInf = inf_of_sign a"
| "js_mul (Fin a) NegInf = inf_of_sign (- a)"
| "js_mul PosInf (Fin b) = inf_of_sign b"
| "js_mul NegInf (Fin b) = inf_of_sign (- b)"
| "js_mul PosInf PosInf = PosInf"
| "js_mul NegInf NegInf = PosInf"
| "js_mul PosInf NegInf = NegInf"
| "js_mul NegInf PosInf = NegInf"

text \<open>Division by zero gives an infinity of the dividend's sign, \<open>0 / 0\<close> is NaN.\<close>

fun js_div :: "jsnum \<Rightarrow> jsnum \<Rightarrow> jsnum" where
  "js_div NaN y = NaN"
| "js_div x NaN = NaN"
| "js_div (Fin a) (Fin b) = (if b = 0 then inf_of_sign a else Fin (a / b))"
| "js_div (Fin a) PosInf = Fin 0"
| "js_div (Fin a) NegInf = Fin 0"
| "js_div PosInf (Fin b) = (if b < 0 then NegInf else PosInf)"
| "js_div NegInf (Fin b) = (if b < 0 then PosInf else NegInf)"
| "js_div x y = NaN"

text \<open>The order of the non-NaN numbers; every comparison with NaN is false.\<close>

fun js_less :: "jsnum \<Rightarrow> jsnum \<Rightarrow> bool" where
  "js_less (Fin a) (Fin b) = (a < b)"
| "js_less NegInf y = (y \<noteq> NegInf \<and> y \<noteq> NaN)"
| "js_less x PosInf = (x \<noteq> PosInf \<and> x \<noteq> NaN)"
| "js_less x y = False"

definition js_max2 :: "jsnum \<Rightarrow> jsnum \<Rightarrow> jsnum" where
  "js_max2 x y = (if x = NaN \<or> y = NaN then NaN else if js_less x y then y else x)"

definition js_min2 :: "jsnum \<Rightarrow> jsnum \<Rightarrow> jsnum" where
  "js_min2 x y = (if x = NaN \<or> y = NaN then NaN else if js_less y x then y else x)"

text \<open>\<open>Math.min(...xs)\<close> and \<open>Math.max(...xs)\<close>: \<open>+Infinity\<close> and \<open>-Infinity\<close> on no argument.\<close>

definition math_min :: "jsnum list \<Rightarrow> jsnum" where
  "math_min xs = foldl js_min2 PosInf xs"

definition math_max :: "jsnum list \<Rightarrow> jsnum" where
  "math_max xs = foldl js_max2 NegInf xs"

text \<open>
  SortCompare: the comparator's result, NaN read as \<open>+0\<close>; only its sign decides the
  order.
\<close>

fun cmp_sign :: "jsnum \<Rightarrow> int" where
  "cmp_sign (Fin a) = (if a < 0 then -1 else if a = 0 then 0 else 1)"
| "cmp_sign NaN = 0"
| "cmp_sign PosInf = 1"
| "cmp_sign NegInf = -1"

text \<open>The value of a finite number, and finiteness.\<close>

definition fin_val :: "jsnum \<Rightarrow> rat" where
  "fin_val x = (case x of Fin q \<Rightarrow> q | _ \<Rightarrow> 0)"

definition is_fin :: "jsnum \<Rightarrow> bool" where
  "is_fin x = (case x of Fin q \<Rightarrow> True | _ \<Rightarrow> False)"

section \<open>parseFloat\<close>

text \<open>
  \<open>parseFloat(v)\<close>: \<open>ToString\<close>, leading white space dropped, then the longest
  prefix that is a StrDecimalLiteral (an optional sign, then \<open>Infinity\<close> or digits
  with an optional fraction and exponent); NaN when there is none.  White space is the
  ASCII part of WhiteSpace and LineTerminator.
\<close>

definition js_space :: "char \<Rightarrow> bool" where
  "js_space c \<longleftrightarrow> (of_char c :: nat) \<in> {9, 10, 11, 12, 13, 32}"

definition pow10 :: "int \<Rightarrow> rat" where
  "pow10 x = (if 0 \<le> x then 10 ^ nat x else 1 / 10 ^ nat (- x))"

definition take_sign :: "string \<Rightarrow> bool \<times> string" where
  "take_sign s =
     (case s of
        c # r \<Rightarrow> if c = CHR ''-'' then (True, r) else if c = CHR ''+'' then (False, r) else (False, s)
      | [] \<Rightarrow> (False, []))"

text \<open>ExponentPart, 0 when the text after the digits is not one.\<close>

definition exponent_part :: "string \<Rightarrow> int" where
  "exponent_part s =
     (case s of
        c # r \<Rightarrow>
          if c = CHR ''e'' \<or> c = CHR ''E'' then
            (case take_sign r of (neg, r') \<Rightarrow>
              let ds = takeWhile is_digit r' in
              if ds = [] then 0 else if neg then - int (digits_value ds) else int (digits_value ds))
          else 0
      | [] \<Rightarrow> 0)"

definition unsigned_decimal :: "string \<Rightarrow> rat option" where
  "unsigned_decimal s =
     (let ip = takeWhile is_digit s;
          r1 = dropWhile is_digit s;
          fp = (if r1 \<noteq> [] \<and> hd r1 = CHR ''.'' then takeWhile is_digit (tl r1) else []);
          r2 = (if r1 \<noteq> [] \<and> hd r1 = CHR ''.'' then dropWhile is_digit (tl r1) else r1)
      in if ip = [] \<and> fp = [] then None
         else Some (of_nat (digits_value (ip @ fp)) * pow10 (exponent_part r2 - int (length fp))))"

definition parseFloat :: "json \<Rightarrow> jsnum" where
  "parseFloat v =
     (case take_sign (dropWhile js_space (js_to_string v)) of (neg, u) \<Rightarrow>
        if take 8 u = ''Infinity'' then (if neg then NegInf else PosInf)
        else (case unsigned_decimal u of
                None \<Rightarrow> NaN
              | Some q \<Rightarrow> Fin (if neg then - q else q)))"

section \<open>Lemmas on the arithmetic\<close>

lemma cmp_sign_sub_Fin: "cmp_sign (js_sub (Fin a) (Fin b)) \<le> 0 \<longleftrightarrow> a \<le> b"
  by (simp add: js_sub_def)

lemma Min_insert_min: "finite S \<Longrightarrow> Min (insert (min a q) S) = Min (insert a (insert q (S :: rat set)))"
  by (cases "S = {}") (simp_all add: min.assoc)

lemma Max_insert_max: "finite S \<Longrightarrow> Max (insert (max a q) S) = Max (insert a (insert q (S :: rat set)))"
  by (cases "S = {}") (simp_all add: max.assoc)

lemma foldl_js_min2_Fin: "foldl js_min2 (Fin a) (map Fin qs) = Fin (Min (insert a (set qs)))"
proof (induction qs arbitrary: a)
  case Nil
  then show ?case by simp
next
  case (Cons q qs)
  have "js_min2 (Fin a) (Fin q) = Fin (min a q)" by (simp add: js_min2_def min_def)
  with Cons.IH show ?case by (simp add: Min_insert_min)
qed

lemma foldl_js_max2_Fin: "foldl js_max2 (Fin a) (map Fin qs) = Fin (Max (insert a (set qs)))"
proof (induction qs arbitrary: a)
  case Nil
  then show ?case by simp
next
  case (Cons q qs)
  have "js_max2 (Fin a) (Fin q) = Fin (max a q)" by (simp add: js_max2_def max_def)
  with Cons.IH show ?case by (simp add: Max_insert_max)
qed

lemma math_min_Fin: "qs \<noteq> [] \<Longrightarrow> math_min (map Fin qs) = Fin (Min (set qs))"
  by (cases qs) (simp_all add: math_min_def js_min2_def foldl_js_min2_Fin)

lemma math_max_Fin: "qs \<noteq> [] \<Longrightarrow> math_max (map Fin qs) = Fin (Max (set qs))"
  by (cases qs) (simp_all add: math_max_def js_max2_def foldl_js_max2_Fin)

lemma math_max_one: "math_max [Fin 1, Fin d] = Fin (max 1 d)"
  by (simp add: math_max_def js_max2_def max_def)

lemma js_sub_Fin [simp]: "js_sub (Fin a) (Fin b) = Fin (a - b)"
  by (simp add: js_sub_def)

lemma js_div_max_one [simp]: "js_div (Fin x) (Fin (max 1 d)) = Fin (x / max 1 d)"
proof -
  have "max 1 d \<noteq> (0 :: rat)" by (simp add: max_def)
  then show ?thesis by simp
qed

lemma js_add_NaN2 [simp]: "js_add x NaN = NaN"
  and js_mul_NaN2 [simp]: "js_mul x NaN = NaN"
  and js_div_NaN2 [simp]: "js_div x NaN = NaN"
  by (cases x; simp)+

lemma foldl_js_min2_NaN: "NaN \<in> set xs \<Longrightarrow> foldl js_min2 a xs = NaN"
proof (induction xs arbitrary: a)
  case Nil
  then show ?case by simp
next
  case (Cons x xs)
  have nan: "foldl js_min2 NaN ys = NaN" for ys by (induction ys) (simp_all add: js_min2_def)
  show ?case
  proof (cases "x = NaN")
    case True
    then have "js_min2 a x = NaN" by (simp add: js_min2_def)
    with nan show ?thesis by simp
  next
    case False
    with Cons show ?thesis by simp
  qed
qed

end
