(* ===== verification/Offers.thy ===== *)
theory Offers
  imports Duration JsNumber
begin

text \<open>
  The mapping of upstream offers to options: the callback of \<open>data.map((offer, idx)
  => ...)\<close> (src/index.js, lines 154--176; the same code is at lines 51--73 of the
  first version) and the segment callback inside it (lines 156--164).  Each property
  read is a \<open>get_prop\<close> in the order JavaScript evaluates the object literal, so a
  missing intermediate object is the \<open>TypeError\<close> the code throws.  The record
  fields keep the source's property names (\<open>from\<close>, \<open>to\<close>, \<open>id\<close> and \<open>notes\<close> are
  prefixed, as Isabelle reserves them).
\<close>

section \<open>Legs and options\<close>

record leg =
  leg_from :: json
  leg_to :: json
  depart :: json
  arrive :: json
  airline :: json
  flightNo :: string
  durationMin :: nat

record flight_option =
  option_id :: json
  provider :: string
  price :: jsnum
  currency :: json
  legs :: "leg list"
  totalDurationMin :: nat
  transfers :: int
  option_notes :: "json list"

section \<open>The segment callback\<close>

definition map_segment :: "json \<Rightarrow> js_error + leg" where
  "map_segment seg =
     ebind (get_prop seg ''departure'') (\<lambda>dep. ebind (get_prop dep ''iataCode'') (\<lambda>fr.
     ebind (get_prop seg ''arrival'') (\<lambda>arr. ebind (get_prop arr ''iataCode'') (\<lambda>tt.
     ebind (get_prop seg ''departure'') (\<lambda>dep'. ebind (get_prop dep' ''at'') (\<lambda>dep_at.
     ebind (get_prop seg ''arrival'') (\<lambda>arr'. ebind (get_prop arr' ''at'') (\<lambda>arr_at.
     ebind (get_prop seg ''carrierCode'') (\<lambda>cc.
     ebind (get_prop seg ''carrierCode'') (\<lambda>cc'. ebind (get_prop seg ''number'') (\<lambda>num.
     ebind (get_prop seg ''duration'') (\<lambda>dur.
     Inr \<lparr>leg_from = fr, leg_to = tt, depart = dep_at, arrive = arr_at, airline = cc,
          flightNo = js_to_string cc' @ js_to_string num,
          durationMin = parseISODurationToMinutes dur\<rparr>))))))))))))"

section \<open>The offer callback\<close>

text \<open>
  \<open>id: offer.id || `am-${idx}`\<close>: the template literal writes the index with
  Number::toString.
\<close>

definition fallback_id :: "nat \<Rightarrow> json" where
  "fallback_id idx = JString (''am-'' @ num_to_string (int idx) 0)"

definition map_offer :: "nat \<Rightarrow> json \<Rightarrow> js_error + flight_option" where
  "map_offer idx offer =
     ebind (get_prop offer ''itineraries'') (\<lambda>its. ebind (get_prop its ''0'') (\<lambda>itin.
     ebind (get_prop itin ''segments'') (\<lambda>segs.
     ebind (call_map ''itin.segments'' segs map_segment) (\<lambda>lgs.
     ebind (get_prop itin ''duration'') (\<lambda>dur.
     ebind (get_prop offer ''id'') (\<lambda>oid.
     ebind (get_prop offer ''price'') (\<lambda>pr. ebind (get_prop pr ''total'') (\<lambda>tot.
     ebind (get_prop offer ''price'') (\<lambda>pr'. ebind (get_prop pr' ''currency'') (\<lambda>cur.
     Inr \<lparr>option_id = js_or oid (fallback_id idx),
          provider = ''AMADEUS'',
          price = parseFloat tot,
          currency = cur,
          legs = lgs,
          totalDurationMin = parseISODurationToMinutes dur,
          transfers = max 0 (int (length lgs) - 1),
          option_notes = []\<rparr>))))))))))"

text \<open>\<open>data.map((offer, idx) => ...)\<close>: index-ordered, the first exception propagates.\<close>

definition map_offers :: "json list \<Rightarrow> js_error + flight_option list" where
  "map_offers data = emap_from 0 map_offer data"

section \<open>Shapes the mapping accepts\<close>

text \<open>
  The reads that can throw are those of a property of \<open>undefined\<close> or \<open>null\<close>;
  \<open>offer_shaped\<close> says that none of them happens.  Every other field may be
  missing: it is passed through as \<open>undefined\<close>.
\<close>

definition seg_shaped :: "json \<Rightarrow> bool" where
  "seg_shaped seg \<longleftrightarrow>
     \<not> nullish seg \<and> \<not> nullish (get_opt seg ''departure'') \<and> \<not> nullish (get_opt seg ''arrival'')"

definition offer_shaped :: "json \<Rightarrow> bool" where
  "offer_shaped offer \<longleftrightarrow>
     \<not> nullish offer \<and> \<not> nullish (get_opt offer ''itineraries'') \<and>
     \<not> nullish (get_opt (get_opt offer ''itineraries'') ''0'') \<and>
     (case get_opt (get_opt (get_opt offer ''itineraries'') ''0'') ''segments'' of
        JArray segs \<Rightarrow> list_all seg_shaped segs
      | _ \<Rightarrow> False) \<and>
     \<not> nullish (get_opt offer ''price'')"

section \<open>Example upstream offers\<close>

text \<open>
  Offers of the shape the flight-offers endpoint returns (spec, section 6): an id, a
  price object with \<open>total\<close> and \<open>currency\<close>, and one itinerary with a
  duration and one segment.  The witnesses below and the end-to-end scenario of
  \<open>Spec2Isabelle\<close> run the model on them.
\<close>

definition example_segment :: "string \<Rightarrow> string \<Rightarrow> string \<Rightarrow> json" where
  "example_segment org dst num =
     JObject [(''departure'', JObject [(''iataCode'', JString org), (''at'', JString ''2024-06-01T08:00:00'')]),
              (''arrival'', JObject [(''iataCode'', JString dst), (''at'', JString ''2024-06-01T11:30:00'')]),
              (''carrierCode'', JString ''AA''), (''number'', JString num), (''duration'', JString ''PT5H30M'')]"

definition example_offer :: "json \<Rightarrow> string \<Rightarrow> string \<Rightarrow> json" where
  "example_offer oid tot dur =
     JObject [(''id'', oid),
              (''itineraries'', JArray [JObject [(''duration'', JString dur),
                                               (''segments'', JArray [example_segment ''JFK'' ''LAX'' ''100'']) ]]),
              (''price'', JObject [(''total'', JString tot), (''currency'', JString ''USD'')])]"

section \<open>Lemmas\<close>

lemma get_prop_eq_get_opt: "\<not> nullish v \<Longrightarrow> get_prop v p = Inr (get_opt v p)"
  by (cases v) (simp_all add: get_opt_def)

lemma get_opt_of_Inr: "get_prop v p = Inr r \<Longrightarrow> get_opt v p = r"
  by (simp add: get_opt_def)

lemma map_segment_shaped: "seg_shaped seg \<Longrightarrow> \<exists>l. map_segment seg = Inr l"
  by (simp add: seg_shaped_def map_segment_def get_prop_eq_get_opt)

lemma map_offer_shaped:
  assumes "offer_shaped offer"
  shows "\<exists>opt. map_offer idx offer = Inr opt"
proof -
  let ?its = "get_opt offer ''itineraries''"
  let ?itin = "get_opt ?its ''0''"
  from assms obtain segs where segs: "get_opt ?itin ''segments'' = JArray segs"
    and shaped: "list_all seg_shaped segs"
    by (auto simp: offer_shaped_def split: json.splits)
  have "\<And>k. k < length segs \<Longrightarrow> \<exists>l. map_segment (segs ! k) = Inr l"
    using shaped by (simp add: list_all_length map_segment_shaped)
  then obtain lgs where lgs: "emap map_segment segs = Inr lgs"
    using emap_from_Inr_exists [where xs = segs and i = 0 and f = "\<lambda>_. map_segment"] by auto
  from assms have nn: "\<not> nullish offer" "\<not> nullish ?its" "\<not> nullish ?itin" "\<not> nullish (get_opt offer ''price'')"
    by (simp_all add: offer_shaped_def)
  then show ?thesis
    by (simp add: map_offer_def get_prop_eq_get_opt segs lgs)
qed

lemma map_offer_fields:
  assumes "map_offer idx offer = Inr opt"
  shows "option_id opt = js_or (get_opt offer ''id'') (fallback_id idx)
       \<and> provider opt = ''AMADEUS''
       \<and> price opt = parseFloat (get_opt (get_opt offer ''price'') ''total'')
       \<and> currency opt = get_opt (get_opt offer ''price'') ''currency''
       \<and> totalDurationMin opt = parseISODurationToMinutes (get_opt (get_opt (get_opt offer ''itineraries'') ''0'') ''duration'')
       \<and> transfers opt = max 0 (int (length (legs opt)) - 1)
       \<and> option_notes opt = []"
  using assms by (auto simp: map_offer_def ebind_eq_Inr_iff get_opt_of_Inr)

text \<open>C3. Mapping is total on well-shaped data: when every offer has the nested fields the mapping reads, \<open>data.map\<close> returns exactly one option per offer, and the k-th option is the one mapped from the k-th offer with index k.\<close>

theorem map_offers_total:
  assumes "\<forall>offer \<in> set data. offer_shaped offer"
  shows "\<exists>opts. map_offers data = Inr opts \<and> length opts = length data \<and>
           (\<forall>k < length data. map_offer k (data ! k) = Inr (opts ! k))"
proof -
  have "\<And>k. k < length data \<Longrightarrow> \<exists>opt. map_offer (0 + k) (data ! k) = Inr opt"
    using assms by (simp add: map_offer_shaped)
  then obtain opts where opts: "map_offers data = Inr opts"
    unfolding map_offers_def by (rule emap_from_Inr_exists [THEN exE]) blast
  then have "length opts = length data"
    unfolding map_offers_def by (rule emap_from_Inr_length)
  moreover have "\<forall>k < length data. map_offer k (data ! k) = Inr (opts ! k)"
    using opts emap_from_Inr_nth [of 0 map_offer data opts] by (simp add: map_offers_def)
  ultimately show ?thesis using opts by blast
qed

text \<open>C4. Every option the mapping produces has a non-negative transfer count, equal to the number of legs minus one whenever the option has a leg.\<close>

theorem map_offers_transfers:
  assumes "map_offers data = Inr opts" and "opt \<in> set opts"
  shows "0 \<le> transfers opt \<and> (legs opt \<noteq> [] \<longrightarrow> transfers opt = int (length (legs opt)) - 1)"
proof -
  from assms(2) obtain k where k: "k < length opts" "opt = opts ! k" by (auto simp: in_set_conv_nth)
  from assms(1) have "length opts = length data"
    unfolding map_offers_def by (rule emap_from_Inr_length)
  with assms(1) k have "map_offer k (data ! k) = Inr opt"
    using emap_from_Inr_nth [of 0 map_offer data opts k] by (simp add: map_offers_def)
  then have "transfers opt = max 0 (int (length (legs opt)) - 1)"
    by (rule map_offer_fields [THEN conjunct2, THEN conjunct2, THEN conjunct2, THEN conjunct2, THEN conjunct2, THEN conjunct1])
  then show ?thesis by (cases "legs opt") auto
qed

text \<open>C19. The identifier of a mapped option is the offer's own \<open>id\<close> when that is truthy, and otherwise \<open>am-\<close> followed by the decimal digits of the offer's zero-based index.\<close>

theorem map_offer_id:
  assumes "map_offer idx offer = Inr opt" and "idx < 10 ^ 21"
  shows "option_id opt = (if truthy (get_opt offer ''id'') then get_opt offer ''id''
                          else JString (''am-'' @ nat_digits idx))"
  using map_offer_fields [OF assms(1)] assms(2)
  by (simp add: fallback_id_def num_to_string_nat js_or_def)

text \<open>When \<open>data.map\<close> throws, the exception is the one raised by the first offer whose mapping fails; every offer before it maps without error.\<close>

theorem map_offers_first_error:
  assumes "map_offers data = Inl e"
  shows "\<exists>k < length data. map_offer k (data ! k) = Inl e \<and> (\<forall>j < k. \<exists>opt. map_offer j (data ! j) = Inr opt)"
  using emap_from_Inl_first [of 0 map_offer data e] assms by (simp add: map_offers_def)

lemmas example_simps = example_offer_def example_segment_def map_offers_def map_offer_def map_segment_def
  fallback_id_def parseISODurationToMinutes_def pt_match_def unit_group_def group_minutes_def
  parseFloat_def unsigned_decimal_def take_sign_def exponent_part_def js_space_def pow10_def
  num_to_string_def pos_num_to_string_def strip_zeros.simps nat_digits.simps is_digit_def
  digits_value_def digit_val_def offer_shaped_def seg_shaped_def get_opt_def

theorem map_offers_total_witness:
  "\<exists>opts. map_offers [example_offer JUndefined ''200.00'' ''PT5H30M'', example_offer (JString ''7'') ''150.00'' ''PT6H'']
      = Inr opts \<and> length opts = 2"
proof -
  have "\<forall>offer \<in> set [example_offer JUndefined ''200.00'' ''PT5H30M'', example_offer (JString ''7'') ''150.00'' ''PT6H'']. offer_shaped offer"
    by (simp add: example_simps)
  from map_offers_total [OF this] show ?thesis by auto
qed

theorem map_offers_transfers_witness:
  "\<exists>opts. map_offers [example_offer JUndefined ''200.00'' ''PT5H30M''] = Inr opts \<and> opts \<noteq> [] \<and>
      0 \<le> transfers (hd opts) \<and> transfers (hd opts) = int (length (legs (hd opts))) - 1"
proof -
  have "\<exists>opts. map_offers [example_offer JUndefined ''200.00'' ''PT5H30M''] = Inr opts"
    by (simp add: example_simps)
  then obtain opts where eq: "map_offers [example_offer JUndefined ''200.00'' ''PT5H30M''] = Inr opts" by blast
  then have ne: "opts \<noteq> []" and lg: "legs (hd opts) \<noteq> []" by (auto simp: example_simps)
  from map_offers_transfers [OF eq, of "hd opts"] ne lg eq show ?thesis by auto
qed

theorem map_offer_id_witness:
  "\<exists>opt. map_offer 3 (example_offer JUndefined ''200.00'' ''PT5H30M'') = Inr opt \<and> option_id opt = JString ''am-3''"
proof -
  have "\<exists>opt. map_offer 3 (example_offer JUndefined ''200.00'' ''PT5H30M'') = Inr opt"
    by (simp add: example_simps)
  then obtain opt where eq: "map_offer 3 (example_offer JUndefined ''200.00'' ''PT5H30M'') = Inr opt" by blast
  have "\<not> truthy (get_opt (example_offer JUndefined ''200.00'' ''PT5H30M'') ''id'')"
    by (simp add: example_simps)
  with map_offer_id [OF eq] eq show ?thesis by (simp add: nat_digits.simps)
qed

theorem map_offers_first_error_witness:
  "\<exists>k \<le> 1. map_offer k ([example_offer JUndefined ''200.00'' ''PT5H30M'', JObject []] ! k)
      = Inl (TypeError (read_msg ''undefined'' ''0''))"
proof -
  have "map_offers [example_offer JUndefined ''200.00'' ''PT5H30M'', JObject []] = Inl (TypeError (read_msg ''undefined'' ''0''))"
    by (simp add: example_simps)
  from map_offers_first_error [OF this] obtain k
    where "k < length [example_offer JUndefined ''200.00'' ''PT5H30M'', JObject []]"
      and "map_offer k ([example_offer JUndefined ''200.00'' ''PT5H30M'', JObject []] ! k)
             = Inl (TypeError (read_msg ''undefined'' ''0''))"
    by blast
  then show ?thesis by (intro exI [of _ k]) simp
qed

end
