(* ===== verification/Ranking.thy ===== *)
theory Ranking
  imports Offers
begin

text \<open>
  The local ranking of the second version (src/index.js, lines 178--194):
  \<open>shortest\<close> sorts by \<open>totalDurationMin\<close>, \<open>cheapest\<close> by \<open>price\<close>, and every
  other mode scores each option by the min-max-normalised price and duration and sorts by
  the score.  \<open>Array.prototype.sort\<close> is modelled by \<open>js_sort\<close>, a stable insertion
  sort that consults only SortCompare's sign of the comparator; for a consistent
  comparator ECMAScript fixes the result as the unique stable sorted permutation, and
  \<open>js_sort_unique\<close> shows that \<open>js_sort\<close> returns exactly that.
\<close>

section \<open>Array.prototype.sort with a comparator\<close>

fun js_insert :: "('a \<Rightarrow> 'a \<Rightarrow> jsnum) \<Rightarrow> 'a \<Rightarrow> 'a list \<Rightarrow> 'a list" where
  "js_insert cmp x [] = [x]"
| "js_insert cmp x (y # ys) =
     (if cmp_sign (cmp x y) \<le> 0 then x # y # ys else y # js_insert cmp x ys)"

fun js_sort :: "('a \<Rightarrow> 'a \<Rightarrow> jsnum) \<Rightarrow> 'a list \<Rightarrow> 'a list" where
  "js_sort cmp [] = []"
| "js_sort cmp (x # xs) = js_insert cmp x (js_sort cmp xs)"

section \<open>The comparators\<close>

text \<open>\<open>(a, b) => a.totalDurationMin - b.totalDurationMin\<close>\<close>

definition by_duration :: "flight_option \<Rightarrow> flight_option \<Rightarrow> jsnum" where
  "by_duration a b = js_sub (Fin (of_nat (totalDurationMin a))) (Fin (of_nat (totalDurationMin b)))"

text \<open>\<open>(a, b) => a.price - b.price\<close>\<close>

definition by_price :: "flight_option \<Rightarrow> flight_option \<Rightarrow> jsnum" where
  "by_price a b = js_sub (price a) (price b)"

text \<open>\<open>(a, b) => (a._score ?? 0) - (b._score ?? 0)\<close>: the score is always set, so
  \<open>?? 0\<close> never applies.\<close>

definition by_score :: "flight_option \<times> jsnum \<Rightarrow> flight_option \<times> jsnum \<Rightarrow> jsnum" where
  "by_score a b = js_sub (snd a) (snd b)"

section \<open>Balanced scores\<close>

definition duration_num :: "flight_option \<Rightarrow> jsnum" where
  "duration_num m = Fin (of_nat (totalDurationMin m))"

text \<open>
  Lines 183--191: the four extremes over the whole list, then for each option
  \<open>0.5 * pN + 0.5 * tN\<close> with \<open>pN = (price - minP) / Math.max(1, maxP - minP)\<close>
  and \<open>tN\<close> likewise; the score is kept beside the option, as \<open>m._score\<close>.
\<close>

definition balanced_scores :: "flight_option list \<Rightarrow> (flight_option \<times> jsnum) list" where
  "balanced_scores mapped =
     (let minP = math_min (map price mapped);
          maxP = math_max (map price mapped);
          minT = math_min (map duration_num mapped);
          maxT = math_max (map duration_num mapped)
      in map (\<lambda>m.
            let pN = js_div (js_sub (price m) minP) (math_max [Fin 1, js_sub maxP minP]);
                tN = js_div (js_sub (duration_num m) minT) (math_max [Fin 1, js_sub maxT minT])
            in (m, js_add (js_mul (Fin (1 / 2)) pN) (js_mul (Fin (1 / 2)) tN))) mapped)"

section \<open>The ranking\<close>

text \<open>
  \<open>const optimize = q.optimize || 'balanced'\<close>, then the three branches; the
  balanced branch sorts the scored options and drops the score (\<open>delete m._score\<close>).
\<close>

definition rank_options :: "json \<Rightarrow> flight_option list \<Rightarrow> flight_option list" where
  "rank_options optimize mapped =
     (let opt = js_or optimize (JString ''balanced'') in
      if opt = JString ''shortest'' then js_sort by_duration mapped
      else if opt = JString ''cheapest'' then js_sort by_price mapped
      else map fst (js_sort by_score (balanced_scores mapped)))"

section \<open>The ranking the spec describes\<close>

text \<open>
  The balanced score of the spec (section 4.3, step 5) over exact rationals: the
  normalised price and duration, each divided by \<open>max(1, spread)\<close>, averaged with
  equal weights.  \<open>rank_balanced\<close> shows that the code sorts by it.
\<close>

definition balanced_score :: "flight_option list \<Rightarrow> flight_option \<Rightarrow> rat" where
  "balanced_score xs m =
     (let ps = set (map (\<lambda>x. fin_val (price x)) xs);
          ts = set (map (\<lambda>x. of_nat (totalDurationMin x)) xs)
      in 1 / 2 * ((fin_val (price m) - Min ps) / max 1 (Max ps - Min ps)) +
         1 / 2 * ((of_nat (totalDurationMin m) - Min ts) / max 1 (Max ts - Min ts)))"

section \<open>Example options\<close>

definition example_option :: "jsnum \<Rightarrow> nat \<Rightarrow> flight_option" where
  "example_option p d =
     \<lparr>option_id = JNull, provider = ''AMADEUS'', price = p, currency = JString ''USD'', legs = [],
      totalDurationMin = d, transfers = 0, option_notes = []\<rparr>"

section \<open>Lemmas\<close>

lemma mset_js_insert: "mset (js_insert cmp x ys) = add_mset x (mset ys)"
  by (induction ys) auto

lemma mset_js_sort: "mset (js_sort cmp xs) = mset xs"
  by (induction xs) (simp_all add: mset_js_insert)

lemma set_js_sort: "set (js_sort cmp xs) = set xs"
  by (metis mset_js_sort set_mset_mset)

lemma js_insert_insort_key:
  "\<forall>y \<in> set ys. (cmp_sign (cmp x y) \<le> 0) = (k x \<le> k y) \<Longrightarrow> js_insert cmp x ys = insort_key k x ys"
  by (induction ys) auto

lemma js_sort_sort_key:
  "\<forall>a \<in> set xs. \<forall>b \<in> set xs. (cmp_sign (cmp a b) \<le> 0) = (k a \<le> k b) \<Longrightarrow> js_sort cmp xs = sort_key k xs"
proof (induction xs)
  case Nil
  then show ?case by simp
next
  case (Cons x xs)
  then have "js_sort cmp xs = sort_key k xs" by simp
  moreover have "\<forall>y \<in> set (sort_key k xs). (cmp_sign (cmp x y) \<le> 0) = (k x \<le> k y)"
    using Cons.prems by simp
  ultimately show ?case by (simp add: js_insert_insort_key)
qed

lemma js_sort_key_cmp:
  "js_sort (\<lambda>a b. js_sub (Fin (k a)) (Fin (k b))) xs = sort_key k xs"
  by (rule js_sort_sort_key) (simp add: cmp_sign_sub_Fin)

lemma js_sort_all_equal:
  "\<forall>a \<in> set xs. \<forall>b \<in> set xs. cmp_sign (cmp a b) = 0 \<Longrightarrow> js_sort cmp xs = xs"
proof (induction xs)
  case Nil
  then show ?case by simp
next
  case (Cons x xs)
  then have "js_sort cmp xs = xs" by simp
  with Cons.prems show ?case by (cases xs) auto
qed

text \<open>Sorting with a comparator \<open>(a, b) => k(a) - k(b)\<close> returns the one permutation of the input that is sorted by \<open>k\<close> and keeps elements of equal key in input order.\<close>

theorem js_sort_unique:
  fixes k :: "'a \<Rightarrow> rat"
  assumes "mset ys = mset xs" and "sorted (map k ys)"
    and "\<forall>v. filter (\<lambda>y. k y = v) ys = filter (\<lambda>y. k y = v) xs"
  shows "js_sort (\<lambda>a b. js_sub (Fin (k a)) (Fin (k b))) xs = ys"
proof -
  have "sort_key k xs = ys"
  proof (rule properties_for_sort_key)
    fix a
    have "(\<lambda>x. k a = k x) = (\<lambda>y. k y = k a)" by auto
    then show "filter (\<lambda>x. k a = k x) ys = filter (\<lambda>x. k a = k x) xs"
      using assms(3) by simp
  qed (use assms in auto)
  then show ?thesis using js_sort_key_cmp [of k xs] by simp
qed

lemma by_price_fin:
  "\<forall>m \<in> set xs. is_fin (price m) \<Longrightarrow> js_sort by_price xs = sort_key (\<lambda>m. fin_val (price m)) xs"
  by (rule js_sort_sort_key)
     (auto simp: by_price_def is_fin_def fin_val_def js_sub_def split: jsnum.splits)

text \<open>C5. With \<open>optimize = 'cheapest'\<close> and finite prices, the ranked list is non-decreasing in price, a permutation of the mapped list, and keeps options of equal price in mapping order (stability).\<close>

theorem rank_cheapest:
  assumes "\<forall>m \<in> set xs. is_fin (price m)"
  shows "sorted (map (\<lambda>m. fin_val (price m)) (rank_options (JString ''cheapest'') xs)) \<and>
         mset (rank_options (JString ''cheapest'') xs) = mset xs \<and>
         (\<forall>v. filter (\<lambda>m. price m = v) (rank_options (JString ''cheapest'') xs) = filter (\<lambda>m. price m = v) xs)"
proof -
  have r: "rank_options (JString ''cheapest'') xs = sort_key (\<lambda>m. fin_val (price m)) xs"
    using assms by (simp add: rank_options_def by_price_fin)
  have "filter (\<lambda>m. price m = v) (sort_key (\<lambda>m. fin_val (price m)) xs) = filter (\<lambda>m. price m = v) xs" for v
  proof (cases "is_fin v")
    case True
    then obtain q where v: "v = Fin q" by (cases v) (auto simp: is_fin_def)
    have "\<And>m. m \<in> set xs \<Longrightarrow> (price m = v) = (fin_val (price m) = q)"
      using assms v by (auto simp: is_fin_def fin_val_def split: jsnum.splits)
    then have "\<And>ys. set ys \<subseteq> set xs \<Longrightarrow> filter (\<lambda>m. price m = v) ys = filter (\<lambda>m. fin_val (price m) = q) ys"
      by (metis (mono_tags, lifting) filter_cong subsetD)
    then show ?thesis by (simp add: sort_key_stable)
  next
    case False
    then have "\<And>ys. set ys \<subseteq> set xs \<Longrightarrow> filter (\<lambda>m. price m = v) ys = []"
      using assms by (auto simp: filter_empty_conv)
    then show ?thesis by simp
  qed
  with r show ?thesis by simp
qed

lemma by_duration_key: "js_sort by_duration xs = sort_key totalDurationMin xs"
  by (rule js_sort_sort_key) (simp add: by_duration_def cmp_sign_sub_Fin)

text \<open>C6. With \<open>optimize = 'shortest'\<close> the ranked list is non-decreasing in total duration, a permutation of the mapped list, and keeps options of equal duration in mapping order.\<close>

theorem rank_shortest:
  "sorted (map totalDurationMin (rank_options (JString ''shortest'') xs)) \<and>
   mset (rank_options (JString ''shortest'') xs) = mset xs \<and>
   (\<forall>v. filter (\<lambda>m. totalDurationMin m = v) (rank_options (JString ''shortest'') xs)
        = filter (\<lambda>m. totalDurationMin m = v) xs)"
  by (simp add: rank_options_def by_duration_key sort_key_stable)

lemma mset_map_fst_scored:
  "mset (map fst (js_sort cmp (map (\<lambda>m. (m, f m)) xs))) = mset xs"
proof -
  have "mset (map fst (js_sort cmp (map (\<lambda>m. (m, f m)) xs))) = image_mset fst (mset (map (\<lambda>m. (m, f m)) xs))"
    by (simp add: mset_js_sort)
  also have "\<dots> = mset xs" by (simp add: multiset.map_comp comp_def)
  finally show ?thesis .
qed

lemma balanced_scores_shape: "\<exists>f. balanced_scores xs = map (\<lambda>m. (m, f m)) xs"
  by (auto simp: balanced_scores_def Let_def)

text \<open>C22. Ranking is a permutation in every mode and for all prices, NaN included: no option is added, dropped or duplicated, and the transient score does not survive in the result.\<close>

theorem rank_options_mset: "mset (rank_options optimize xs) = mset xs"
proof -
  obtain f where "balanced_scores xs = map (\<lambda>m. (m, f m)) xs" using balanced_scores_shape by blast
  then show ?thesis
    by (simp add: rank_options_def Let_def mset_js_sort multiset.map_comp comp_def)
qed

lemma prices_Fin:
  "\<forall>m \<in> set xs. is_fin (price m) \<Longrightarrow> map price xs = map Fin (map (\<lambda>x. fin_val (price x)) xs)"
  by (induction xs) (auto simp: is_fin_def fin_val_def split: jsnum.splits)

lemma durations_Fin:
  "map duration_num xs = map Fin (map (\<lambda>x. of_nat (totalDurationMin x)) xs)"
  by (simp add: duration_num_def)

lemma score_Fin:
  "js_add (js_mul (Fin (1 / 2)) (js_div (Fin p) (math_max [Fin 1, Fin d])))
          (js_mul (Fin (1 / 2)) (js_div (Fin t) (math_max [Fin 1, Fin e])))
   = Fin (1 / 2 * (p / max 1 d) + 1 / 2 * (t / max 1 e))"
  by (simp only: math_max_one js_div_max_one) simp

lemma balanced_scores_fin:
  assumes "\<forall>m \<in> set xs. is_fin (price m)"
  shows "balanced_scores xs = map (\<lambda>m. (m, Fin (balanced_score xs m))) xs"
proof (cases "xs = []")
  case True
  then show ?thesis by (simp add: balanced_scores_def)
next
  case False
  let ?ps = "map (\<lambda>x. fin_val (price x)) xs"
  let ?ts = "map (\<lambda>x. of_nat (totalDurationMin x) :: rat) xs"
  have pm: "map price xs = map Fin ?ps" by (rule prices_Fin [OF assms])
  have ne: "?ps \<noteq> []" using False by simp
  have mm: "math_min (map price xs) = Fin (Min (set ?ps))" "math_max (map price xs) = Fin (Max (set ?ps))"
    unfolding pm using math_min_Fin [OF ne] math_max_Fin [OF ne] by simp_all
  have ne': "?ts \<noteq> []" using False by simp
  have tt: "math_min (map duration_num xs) = Fin (Min (set ?ts))" "math_max (map duration_num xs) = Fin (Max (set ?ts))"
    unfolding durations_Fin using math_min_Fin [OF ne'] math_max_Fin [OF ne'] by simp_all
  show ?thesis
    unfolding balanced_scores_def Let_def mm tt
  proof (intro map_cong refl)
    fix m assume "m \<in> set xs"
    with assms have "is_fin (price m)" by blast
    then obtain q where q: "price m = Fin q"
      by (cases "price m") (auto simp: is_fin_def)
    then have fq: "fin_val (price m) = q" by (simp add: fin_val_def)
    from q show "(m, js_add (js_mul (Fin (1 / 2))
                 (js_div (js_sub (price m) (Fin (Min (set ?ps))))
                   (math_max [Fin 1, js_sub (Fin (Max (set ?ps))) (Fin (Min (set ?ps)))])))
               (js_mul (Fin (1 / 2))
                 (js_div (js_sub (duration_num m) (Fin (Min (set ?ts))))
                   (math_max [Fin 1, js_sub (Fin (Max (set ?ts))) (Fin (Min (set ?ts)))]))))
          = (m, Fin (balanced_score xs m))"
      by (simp only: q js_sub_Fin duration_num_def score_Fin) (simp add: balanced_score_def Let_def fq)
  qed
qed

lemma map_fst_insort_scored:
  "map fst (insort_key (\<lambda>p. s (fst p)) (x, g x) ys) = insort_key s x (map fst ys)"
  by (induction ys) auto

lemma map_fst_sort_scored:
  "map fst (sort_key (\<lambda>p. s (fst p)) (map (\<lambda>m. (m, g m)) xs)) = sort_key s xs"
  by (induction xs) (simp_all add: map_fst_insort_scored)

lemma js_sort_by_score_Fin:
  "map fst (js_sort by_score (map (\<lambda>m. (m, Fin (s m))) xs)) = sort_key s xs"
proof -
  have "js_sort by_score (map (\<lambda>m. (m, Fin (s m))) xs) = sort_key (\<lambda>p. s (fst p)) (map (\<lambda>m. (m, Fin (s m))) xs)"
    by (rule js_sort_sort_key) (auto simp: by_score_def cmp_sign_sub_Fin)
  then show ?thesis using map_fst_sort_scored [of s "\<lambda>m. Fin (s m)" xs] by simp
qed

lemma js_or_balanced:
  "optimize \<notin> {JString ''shortest'', JString ''cheapest''} \<Longrightarrow>
   js_or optimize (JString ''balanced'') \<notin> {JString ''shortest'', JString ''cheapest''}"
  by (simp add: js_or_def)

lemma rank_balanced_sort_key:
  assumes "optimize \<notin> {JString ''shortest'', JString ''cheapest''}"
    and "\<forall>m \<in> set xs. is_fin (price m)"
  shows "rank_options optimize xs = sort_key (balanced_score xs) xs"
  using js_or_balanced [OF assms(1)]
  by (simp add: rank_options_def Let_def balanced_scores_fin [OF assms(2)] js_sort_by_score_Fin)

text \<open>C7. In balanced mode (optimize absent, or any value other than \<open>shortest\<close> and \<open>cheapest\<close>) with finite prices, the ranking computed with JavaScript numbers equals the stable sort by the rational score \<open>0.5 * (p - minP) / max(1, maxP - minP) + 0.5 * (t - minT) / max(1, maxT - minT)\<close>.\<close>

theorem rank_balanced:
  assumes "optimize \<notin> {JString ''shortest'', JString ''cheapest''}"
    and "\<forall>m \<in> set xs. is_fin (price m)"
  shows "rank_options optimize xs = sort_key (balanced_score xs) xs"
  using assms by (rule rank_balanced_sort_key)

lemma sort_key_cong_order:
  "\<forall>a \<in> set xs. \<forall>b \<in> set xs. (f a \<le> f b) = (g a \<le> g b) \<Longrightarrow> sort_key f xs = sort_key g xs"
proof (induction xs)
  case Nil
  then show ?case by simp
next
  case (Cons x xs)
  then have ih: "sort_key f xs = sort_key g xs" by simp
  have "\<And>ys. set ys \<subseteq> set xs \<Longrightarrow> insort_key f x ys = insort_key g x ys"
  proof -
    fix ys show "set ys \<subseteq> set xs \<Longrightarrow> insort_key f x ys = insort_key g x ys"
      using Cons.prems by (induction ys) auto
  qed
  with ih show ?case by simp
qed

text \<open>C23. When all options share one price, balanced mode orders them by total duration (the price term is zero for all, the duration term is not), so it is not order-preserving relative to mapping order.\<close>

theorem rank_balanced_equal_prices:
  assumes "optimize \<notin> {JString ''shortest'', JString ''cheapest''}"
    and "\<forall>m \<in> set xs. price m = Fin c"
  shows "rank_options optimize xs = sort_key totalDurationMin xs"
proof -
  have fin: "\<forall>m \<in> set xs. is_fin (price m)" using assms(2) by (simp add: is_fin_def)
  let ?ts = "(\<lambda>x. of_nat (totalDurationMin x) :: rat) ` set xs"
  let ?D = "max 1 (Max ?ts - Min ?ts)"
  have D: "0 < ?D" by (simp add: max_def)
  have ps: "\<And>x. x \<in> set xs \<Longrightarrow> fin_val (price x) = c" using assms(2) by (simp add: fin_val_def)
  have score: "balanced_score xs m = (of_nat (totalDurationMin m) - Min ?ts) / (2 * ?D)" if "m \<in> set xs" for m
  proof -
    have "(\<lambda>x. fin_val (price x)) ` set xs = {c}" using that ps by auto
    then show ?thesis using that ps by (simp add: balanced_score_def Let_def)
  qed
  have "\<forall>a \<in> set xs. \<forall>b \<in> set xs. (balanced_score xs a \<le> balanced_score xs b) = (totalDurationMin a \<le> totalDurationMin b)"
    using D by (simp add: score divide_right_mono_neg divide_le_cancel)
  then have "sort_key (balanced_score xs) xs = sort_key totalDurationMin xs"
    by (rule sort_key_cong_order)
  with rank_balanced_sort_key [OF assms(1) fin] show ?thesis by simp
qed

text \<open>C24. In balanced mode one non-numeric price (\<open>NaN\<close>) makes \<open>minP\<close> and so every score \<open>NaN\<close>; every comparison is then read as equal and the result is the mapping order, whatever the other prices and durations.\<close>

theorem rank_balanced_NaN:
  assumes "optimize \<notin> {JString ''shortest'', JString ''cheapest''}"
    and "\<exists>m \<in> set xs. price m = NaN"
  shows "rank_options optimize xs = xs"
proof -
  have "NaN \<in> set (map price xs)" using assms(2) by force
  then have "math_min (map price xs) = NaN" by (simp add: math_min_def foldl_js_min2_NaN)
  then have "balanced_scores xs = map (\<lambda>m. (m, NaN)) xs"
    by (simp add: balanced_scores_def Let_def js_sub_def)
  moreover have "js_sort by_score (map (\<lambda>m. (m, NaN)) xs) = map (\<lambda>m. (m, NaN)) xs"
    by (rule js_sort_all_equal) (simp add: by_score_def js_sub_def)
  ultimately show ?thesis
    using js_or_balanced [OF assms(1)] by (simp add: rank_options_def Let_def comp_def)
qed

theorem js_sort_unique_witness:
  "js_sort (\<lambda>a b. js_sub (Fin (id a)) (Fin (id b))) [2, 1 :: rat] = [1, 2]"
proof (rule js_sort_unique)
  show "\<forall>v. filter (\<lambda>y. id y = v) [1, 2 :: rat] = filter (\<lambda>y. id y = v) [2, 1]" by auto
qed simp_all

theorem rank_cheapest_witness:
  "sorted (map (\<lambda>m. fin_val (price m)) (rank_options (JString ''cheapest'') [example_option (Fin 200) 300, example_option (Fin 150) 400])) \<and>
   mset (rank_options (JString ''cheapest'') [example_option (Fin 200) 300, example_option (Fin 150) 400])
     = mset [example_option (Fin 200) 300, example_option (Fin 150) 400] \<and>
   (\<forall>v. filter (\<lambda>m. price m = v) (rank_options (JString ''cheapest'') [example_option (Fin 200) 300, example_option (Fin 150) 400])
        = filter (\<lambda>m. price m = v) [example_option (Fin 200) 300, example_option (Fin 150) 400])"
  by (rule rank_cheapest) (simp add: example_option_def is_fin_def)

theorem rank_balanced_witness:
  "rank_options JUndefined [example_option (Fin 200) 300, example_option (Fin 150) 400]
     = sort_key (balanced_score [example_option (Fin 200) 300, example_option (Fin 150) 400])
                [example_option (Fin 200) 300, example_option (Fin 150) 400]"
  by (rule rank_balanced) (simp_all add: example_option_def is_fin_def)

theorem rank_balanced_equal_prices_witness:
  "rank_options JUndefined [example_option (Fin 100) 300, example_option (Fin 100) 200]
     = [example_option (Fin 100) 200, example_option (Fin 100) 300]"
proof -
  have "rank_options JUndefined [example_option (Fin 100) 300, example_option (Fin 100) 200]
          = sort_key totalDurationMin [example_option (Fin 100) 300, example_option (Fin 100) 200]"
    by (rule rank_balanced_equal_prices) (simp_all add: example_option_def)
  then show ?thesis by (simp add: example_option_def)
qed

theorem rank_balanced_NaN_witness:
  "rank_options JUndefined [example_option (Fin 200) 300, example_option NaN 100]
     = [example_option (Fin 200) 300, example_option NaN 100]"
  by (rule rank_balanced_NaN) (simp_all add: example_option_def)

end
