(* ===== verification/UrlParams.thy ===== *)
theory UrlParams
  imports JsValue
begin

text \<open>
  \<open>URLSearchParams\<close> as the program uses it: built from a record whose values are
  converted by \<open>ToString\<close> (the token form, lines 17-21 and 118-122, and the search
  parameters, lines 36-44 and 131-139), updated by \<open>set\<close> (line 140), and
  serialized by \<open>toString()\<close> with the application/x-www-form-urlencoded
  serializer of the URL standard.  A string of the model is a list of code points
  below 256, so its UTF-8 encoding takes one or two bytes per character.
  The parser of the same standard, with which the upstream server reads the query
  and the form body, is written here as the specification of the serializer: it
  gives back the list of pairs that was serialized.
\<close>

type_synonym params = "(string \<times> string) list"

section \<open>Serialization\<close>

text \<open>The bytes the serializer leaves as they are: ASCII alphanumerics and \<open>*-._\<close>.\<close>

definition form_unreserved :: "nat \<Rightarrow> bool" where
  "form_unreserved b \<longleftrightarrow>
     (48 \<le> b \<and> b \<le> 57) \<or> (65 \<le> b \<and> b \<le> 90) \<or> (97 \<le> b \<and> b \<le> 122) \<or> b \<in> {0x2A, 0x2D, 0x2E, 0x5F}"

definition hex_upper :: "nat \<Rightarrow> char" where
  "hex_upper d = (if d < 10 then digit_char d else char_of (55 + d))"

definition utf8_bytes :: "char \<Rightarrow> nat list" where
  "utf8_bytes c =
     (let n = (of_char c :: nat) in if n < 128 then [n] else [192 + n div 64, 128 + n mod 64])"

definition encode_byte :: "nat \<Rightarrow> string" where
  "encode_byte b =
     (if b = 0x20 then ''+''
      else if form_unreserved b then [char_of b]
      else [CHR ''%'', hex_upper (b div 16), hex_upper (b mod 16)])"

definition form_encode :: "string \<Rightarrow> string" where
  "form_encode s = concat (map encode_byte (concat (map utf8_bytes s)))"

definition form_urlencode :: "params \<Rightarrow> string" where
  "form_urlencode ps = join_with ''&'' (map (\<lambda>(n, v). form_encode n @ ''='' @ form_encode v) ps)"

text \<open>
  \<open>new URLSearchParams(record)\<close>: each value goes through \<open>ToString\<close>, so an
  absent credential is sent as the text \<open>undefined\<close>.
\<close>

definition params_of_record :: "(string \<times> json) list \<Rightarrow> params" where
  "params_of_record r = map (\<lambda>(n, v). (n, js_to_string v)) r"

text \<open>
  \<open>params.set(n, v)\<close>: the first pair named \<open>n\<close> gets the value \<open>v\<close> and the
  other pairs named \<open>n\<close> are removed; without such a pair, \<open>(n, v)\<close> is appended.
\<close>

fun set_first :: "string \<Rightarrow> string \<Rightarrow> params \<Rightarrow> params" where
  "set_first n v [] = []"
| "set_first n v ((m, w) # ps) =
     (if m = n then (n, v) # filter (\<lambda>p. fst p \<noteq> n) ps else (m, w) # set_first n v ps)"

definition params_set :: "params \<Rightarrow> string \<Rightarrow> string \<Rightarrow> params" where
  "params_set ps n v = (if n \<in> set (map fst ps) then set_first n v ps else ps @ [(n, v)])"

section \<open>The parser of the URL standard\<close>

fun split_on :: "char \<Rightarrow> string \<Rightarrow> string list" where
  "split_on c [] = [[]]"
| "split_on c (x # xs) =
     (if x = c then [] # split_on c xs else (let r = split_on c xs in (x # hd r) # tl r))"

fun percent_decode :: "string \<Rightarrow> nat list" where
  "percent_decode (c # a # b # rest) =
     (case (hex_val a, hex_val b) of
        (Some x, Some y) \<Rightarrow>
          if c = CHR ''%'' then (16 * x + y) # percent_decode rest
          else of_char c # percent_decode (a # b # rest)
      | _ \<Rightarrow> of_char c # percent_decode (a # b # rest))"
| "percent_decode [c, a] = [of_char c, of_char a]"
| "percent_decode [c] = [of_char c]"
| "percent_decode [] = []"

text \<open>UTF-8 decoding of the one- and two-byte sequences of code points below 256.\<close>

fun utf8_decode :: "nat list \<Rightarrow> string" where
  "utf8_decode (a # b # rest) =
     (if 192 \<le> a \<and> a < 196 \<and> 128 \<le> b \<and> b < 192
      then char_of ((a - 192) * 64 + (b - 128)) # utf8_decode rest
      else char_of a # utf8_decode (b # rest))"
| "utf8_decode [a] = [char_of a]"
| "utf8_decode [] = []"

definition plus_to_space :: "char \<Rightarrow> char" where
  "plus_to_space c = (if c = CHR ''+'' then CHR '' '' else c)"

definition form_decode :: "string \<Rightarrow> string" where
  "form_decode s = utf8_decode (percent_decode (map plus_to_space s))"

definition parse_pair :: "string \<Rightarrow> string \<times> string" where
  "parse_pair s =
     (let n = takeWhile (\<lambda>c. c \<noteq> CHR ''='') s in (form_decode n, form_decode (drop (Suc (length n)) s)))"

definition form_parse :: "string \<Rightarrow> params" where
  "form_parse s = map parse_pair (filter (\<lambda>x. x \<noteq> []) (split_on CHR ''&'' s))"

section \<open>The serializer and the parser\<close>

lemma hex_val_hex_upper [simp]: "d < 16 \<Longrightarrow> hex_val (hex_upper d) = Some d"
  by (auto simp: hex_val_def hex_upper_def digit_char_def Let_def)

lemma hex_upper_not [simp]: "d < 16 \<Longrightarrow> hex_upper d \<noteq> CHR ''+'' \<and> hex_upper d \<noteq> CHR ''%'' \<and> hex_upper d \<noteq> CHR ''&'' \<and> hex_upper d \<noteq> CHR ''=''"
proof -
  assume d: "d < 16"
  have "(of_char (hex_upper d) :: nat) = (if d < 10 then 48 + d else 55 + d)"
    using d by (simp add: hex_upper_def digit_char_def)
  then show ?thesis using d by (auto split: if_splits)
qed

lemma percent_decode_literal:
  "c \<noteq> CHR ''%'' \<Longrightarrow> percent_decode (c # s) = of_char c # percent_decode s"
  by (cases s rule: percent_decode.cases) (auto split: option.splits)

lemma encode_byte_decode:
  assumes "b < 256"
  shows "percent_decode (map plus_to_space (encode_byte b) @ s) = b # percent_decode s"
proof -
  consider "b = 0x20" | "b \<noteq> 0x20" "form_unreserved b" | "b \<noteq> 0x20" "\<not> form_unreserved b" by blast
  then show ?thesis
  proof cases
    case 1
    then show ?thesis by (simp add: encode_byte_def plus_to_space_def percent_decode_literal)
  next
    case 2
    have ob: "(of_char (char_of b) :: nat) = b" using assms by (simp add: of_char_of)
    have "char_of b \<noteq> CHR ''+'' \<and> char_of b \<noteq> CHR ''%''"
    proof (intro conjI notI)
      assume "char_of b = CHR ''+''"
      then have "b = 43" using ob by simp
      with 2 show False by (simp add: form_unreserved_def)
    next
      assume "char_of b = CHR ''%''"
      then have "b = 37" using ob by simp
      with 2 show False by (simp add: form_unreserved_def)
    qed
    with 2 show ?thesis using assms by (simp add: encode_byte_def plus_to_space_def percent_decode_literal)
  next
    case 3
    have "b div 16 < 16" "b mod 16 < 16" using assms by auto
    with 3 show ?thesis by (simp add: encode_byte_def plus_to_space_def)
  qed
qed

lemma utf8_bytes_lt: "x \<in> set (utf8_bytes c) \<Longrightarrow> x < 256"
proof -
  have "(of_char c :: nat) < 256" by (rule nat_of_char_less_256)
  then have "(of_char c :: nat) div 64 < 4" by (simp add: div_less_iff_less_mult)
  then show "x \<in> set (utf8_bytes c) \<Longrightarrow> x < 256"
    using \<open>(of_char c :: nat) < 256\<close> by (auto simp: utf8_bytes_def Let_def split: if_splits)
qed

lemma percent_decode_encode_bytes:
  "\<forall>b \<in> set bs. b < 256 \<Longrightarrow> percent_decode (map plus_to_space (concat (map encode_byte bs))) = bs"
proof (induction bs)
  case Nil
  then show ?case by simp
next
  case (Cons b bs)
  then show ?case using encode_byte_decode [of b] by simp
qed

lemma utf8_decode_bytes: "utf8_decode (utf8_bytes c @ r) = c # utf8_decode r"
proof -
  have lt: "(of_char c :: nat) < 256" by (rule nat_of_char_less_256)
  show ?thesis
  proof (cases "(of_char c :: nat) < 128")
    case True
    then show ?thesis by (cases r) (simp_all add: utf8_bytes_def)
  next
    case False
    have "(of_char c :: nat) div 64 < 4" using lt by (simp add: div_less_iff_less_mult)
    moreover have "(of_char c :: nat) div 64 * 64 + of_char c mod 64 = of_char c" by simp
    ultimately show ?thesis using False by (simp add: utf8_bytes_def Let_def)
  qed
qed

lemma utf8_decode_concat: "utf8_decode (concat (map utf8_bytes s)) = s"
  by (induction s) (simp_all add: utf8_decode_bytes)

lemma form_decode_encode: "form_decode (form_encode s) = s"
proof -
  have "\<forall>b \<in> set (concat (map utf8_bytes s)). b < 256" using utf8_bytes_lt by auto
  then show ?thesis
    by (simp add: form_decode_def form_encode_def percent_decode_encode_bytes utf8_decode_concat)
qed

lemma char_of_eq_iff:
  fixes b :: nat
  assumes "b < 256" shows "(char_of b = c) = (b = of_char c)"
proof
  assume "char_of b = c"
  then have "(of_char (char_of b) :: nat) = of_char c" by simp
  with assms show "b = of_char c" by (simp add: of_char_of)
next
  assume "b = of_char c"
  then show "char_of b = c" by simp
qed

lemma encode_byte_no_sep:
  assumes "b < 256"
  shows "CHR ''&'' \<notin> set (encode_byte b) \<and> CHR ''='' \<notin> set (encode_byte b)"
proof (cases "b = 0x20 \<or> \<not> form_unreserved b")
  case True
  have "b div 16 < 16" "b mod 16 < 16" using assms by auto
  then have "CHR ''&'' \<noteq> hex_upper (b div 16) \<and> CHR ''='' \<noteq> hex_upper (b div 16)"
    "CHR ''&'' \<noteq> hex_upper (b mod 16) \<and> CHR ''='' \<noteq> hex_upper (b mod 16)"
    using hex_upper_not by metis+
  with True show ?thesis by (auto simp: encode_byte_def)
next
  case False
  then have "b \<noteq> 38" "b \<noteq> 61" by (auto simp: form_unreserved_def)
  then have "char_of b \<noteq> CHR ''&''" "char_of b \<noteq> CHR ''=''"
    using assms by (simp_all add: char_of_eq_iff)
  with False show ?thesis by (simp add: encode_byte_def)
qed

lemma form_encode_no_sep: "CHR ''&'' \<notin> set (form_encode s) \<and> CHR ''='' \<notin> set (form_encode s)"
  using encode_byte_no_sep utf8_bytes_lt by (fastforce simp: form_encode_def)

lemma split_on_no_sep: "c \<notin> set x \<Longrightarrow> split_on c x = [x]"
  by (induction x) auto

lemma split_on_append_sep: "c \<notin> set x \<Longrightarrow> split_on c (x @ c # rest) = x # split_on c rest"
  by (induction x) (auto simp: Let_def)

lemma split_on_join_with:
  "xs \<noteq> [] \<Longrightarrow> \<forall>x \<in> set xs. c \<notin> set x \<Longrightarrow> split_on c (join_with [c] xs) = xs"
  by (induction "[c]" xs rule: join_with.induct) (simp_all add: split_on_no_sep split_on_append_sep)

lemma parse_pair_encoded: "parse_pair (form_encode n @ CHR ''='' # form_encode v) = (n, v)"
proof -
  have "\<forall>x \<in> set (form_encode n). x \<noteq> CHR ''=''" using form_encode_no_sep [of n] by blast
  then have "takeWhile (\<lambda>c. c \<noteq> CHR ''='') (form_encode n @ CHR ''='' # form_encode v) = form_encode n"
    by (subst takeWhile_append2) auto
  then show ?thesis by (simp add: parse_pair_def form_decode_encode)
qed

text \<open>Parsing the text of \<open>URLSearchParams.toString()\<close> with the URL standard's form parser gives back exactly the serialized name-value pairs, in order, whatever characters they contain.\<close>

theorem form_parse_urlencode: "form_parse (form_urlencode ps) = ps"
proof (cases "ps = []")
  case True
  then show ?thesis by (simp add: form_parse_def form_urlencode_def)
next
  case False
  let ?es = "map (\<lambda>(n, v). form_encode n @ ''='' @ form_encode v) ps"
  have "\<forall>x \<in> set ?es. CHR ''&'' \<notin> set x" using form_encode_no_sep by auto
  then have "split_on CHR ''&'' (form_urlencode ps) = ?es"
    using False by (simp add: form_urlencode_def split_on_join_with)
  moreover have "filter (\<lambda>x. x \<noteq> []) ?es = ?es" by (induction ps) auto
  moreover have "map parse_pair ?es = ps" by (induction ps) (auto simp: parse_pair_encoded)
  ultimately show ?thesis by (simp add: form_parse_def)
qed

lemma set_first_named: "n \<in> set (map fst ps) \<Longrightarrow> filter (\<lambda>p. fst p = n) (set_first n v ps) = [(n, v)]"
  by (induction n v ps rule: set_first.induct) (auto simp: filter_empty_conv)

lemma set_first_other: "m \<noteq> n \<Longrightarrow> filter (\<lambda>p. fst p = m) (set_first n v ps) = filter (\<lambda>p. fst p = m) ps"
  by (induction n v ps rule: set_first.induct) (auto simp: filter_filter intro: filter_cong)

text \<open>After \<open>params.set(n, v)\<close> the only pair named \<open>n\<close> is \<open>(n, v)\<close>, and the pairs of every other name are unchanged and in their order.\<close>

theorem params_set_spec:
  "filter (\<lambda>p. fst p = m) (params_set ps n v) = (if m = n then [(n, v)] else filter (\<lambda>p. fst p = m) ps)"
  by (auto simp: params_set_def set_first_named set_first_other filter_empty_conv)

end
