(* ===== verification/Pipeline.thy ===== *)
theory Pipeline
  imports Ranking UrlParams
begin

text \<open>
  The search pipeline of the second version (\<open>src/index.js\<close> lines 94-217) and of the
  first (lines 1-93), composed from the offer mapping and the ranking: the token
  exchange (\<open>getAccessToken\<close>), the query parameters, the upstream error check,
  \<open>searchAmadeus\<close>, and the \<open>POST /api/search\<close> handler.  The two HTTP
  calls are the only effects of a search: a run returns the list of requests it sent,
  in order, with its result.  The upstream is a function from a request to the outcome
  of \<open>ky(...).json()\<close>: the parsed body, or the exception \<open>ky\<close> throws
  (an HTTP error status, a network failure, a body that is not JSON).
  \<open>format(new Date(v), 'yyyy-MM-dd')\<close> is a parameter \<open>fmt\<close> of the pipeline,
  its outcome on the value \<open>v\<close>.
\<close>

section \<open>Requests, configuration and replies\<close>

datatype request =
    TokenPost string
  | OffersGet string string

text \<open>
  \<open>TokenPost body\<close> is the POST to the token endpoint with its form body;
  \<open>OffersGet url auth\<close> the GET of the flight offers with its URL and
  \<open>Authorization\<close> header.
\<close>

type_synonym upstream = "request \<Rightarrow> js_error + json"

type_synonym date_format = "json \<Rightarrow> js_error + string"

record config =
  amadeus_key :: json
  amadeus_secret :: json

definition offers_url :: string where
  "offers_url = ''https://test.api.amadeus.com/v2/shopping/flight-offers''"

datatype reply_body =
    BodyOk
  | BodyOptions "flight_option list"
  | BodyError json

text \<open>
  The object given to \<open>res.json\<close>: \<open>{ ok: true }\<close>, \<open>{ ok: true, options }\<close>
  and \<open>{ ok: false, error }\<close>.
\<close>

datatype reply = Reply nat reply_body

datatype event =
    Upstream request
  | ConsoleError "string option" js_error

section \<open>The token exchange\<close>

definition token_form :: "config \<Rightarrow> params" where
  "token_form cfg =
     params_of_record [(''grant_type'', JString ''client_credentials''),
                       (''client_id'', amadeus_key cfg), (''client_secret'', amadeus_secret cfg)]"

definition getAccessToken :: "config \<Rightarrow> upstream \<Rightarrow> request list \<times> (js_error + json)" where
  "getAccessToken cfg up =
     (let r = TokenPost (form_urlencode (token_form cfg))
      in ([r], ebind (up r) (\<lambda>res. get_prop res ''access_token'')))"

section \<open>Query parameters\<close>

text \<open>
  The record of lines 131-139 in its evaluation order, then \<open>q.end\<close> and the
  \<open>set\<close> of line 140.
\<close>

definition search_params :: "date_format \<Rightarrow> json \<Rightarrow> js_error + params" where
  "search_params fmt q =
     ebind (get_prop q ''from'') (\<lambda>org.
     ebind (get_prop q ''to'') (\<lambda>dst.
     ebind (get_prop q ''start'') (\<lambda>start.
     ebind (fmt start) (\<lambda>dep.
     ebind (get_prop q ''pax'') (\<lambda>pax.
       let ps = params_of_record
                  [(''originLocationCode'', org), (''destinationLocationCode'', dst),
                   (''departureDate'', JString dep),
                   (''adults'', JString (js_to_string (js_or pax (nat_num 1)))),
                   (''currencyCode'', JString ''USD''), (''max'', JString ''30'')]
       in ebind (get_prop q ''end'') (\<lambda>ed.
            if truthy ed then ebind (fmt ed) (\<lambda>rd. Inr (params_set ps ''returnDate'' rd))
            else Inr ps))))))"

definition offers_request :: "params \<Rightarrow> json \<Rightarrow> request" where
  "offers_request ps token =
     OffersGet (offers_url @ ''?'' @ form_urlencode ps) (''Bearer '' @ js_to_string token)"

section \<open>The upstream response\<close>

text \<open>\<open>e => e.detail || e.title || JSON.stringify(e)\<close>.\<close>

definition error_text :: "json \<Rightarrow> js_error + json" where
  "error_text e =
     ebind (get_prop e ''detail'') (\<lambda>d.
       if truthy d then Inr d
       else ebind (get_prop e ''title'') (\<lambda>t. Inr (js_or t (json_stringify e))))"

text \<open>Lines 147-150: a truthy \<open>res.errors?.length\<close> throws the joined messages.\<close>

definition check_errors :: "json \<Rightarrow> js_error + unit" where
  "check_errors res =
     ebind (get_prop res ''errors'') (\<lambda>errs.
       if truthy (get_opt errs ''length'')
       then ebind (call_map ''res.errors'' errs error_text) (\<lambda>msgs.
              Inl (Error (''Amadeus error: '' @ js_join '' | '' msgs)))
       else Inr ())"

text \<open>Line 152: \<open>Array.isArray(res.data) ? res.data : []\<close>.\<close>

definition offers_data :: "json \<Rightarrow> js_error + json list" where
  "offers_data res =
     ebind (get_prop res ''data'') (\<lambda>d. Inr (case d of JArray xs \<Rightarrow> xs | _ \<Rightarrow> []))"

section \<open>searchAmadeus\<close>

definition searchAmadeus :: "config \<Rightarrow> date_format \<Rightarrow> upstream \<Rightarrow> json \<Rightarrow> request list \<times> (js_error + flight_option list)" where
  "searchAmadeus cfg fmt up q =
     (case getAccessToken cfg up of
        (rs, Inl e) \<Rightarrow> (rs, Inl e)
      | (rs, Inr token) \<Rightarrow>
          (case search_params fmt q of
             Inl e \<Rightarrow> (rs, Inl e)
           | Inr ps \<Rightarrow>
               let r = offers_request ps token
               in (rs @ [r],
                   ebind (up r) (\<lambda>res.
                   ebind (check_errors res) (\<lambda>_.
                   ebind (offers_data res) (\<lambda>data.
                   ebind (map_offers data) (\<lambda>mapped.
                   ebind (get_prop q ''optimize'') (\<lambda>opt. Inr (rank_options opt mapped)))))))))"

section \<open>The route handlers\<close>

text \<open>The \<open>catch\<close> of lines 208-211: \<open>e.message || 'Server error'\<close>.\<close>

definition error_reply :: "js_error \<Rightarrow> reply" where
  "error_reply e = Reply 500 (BodyError (js_or (JString (error_message e)) (JString ''Server error'')))"

definition required_msg :: json where
  "required_msg = JString ''from, to, start are required''"

text \<open>Line 203, with the short circuit of \<open>||\<close>.\<close>

definition query_complete :: "json \<Rightarrow> js_error + bool" where
  "query_complete q =
     ebind (get_prop q ''from'') (\<lambda>f.
       if \<not> truthy f then Inr False
       else ebind (get_prop q ''to'') (\<lambda>t.
         if \<not> truthy t then Inr False
         else ebind (get_prop q ''start'') (\<lambda>s. Inr (truthy s))))"

definition handle_search :: "config \<Rightarrow> date_format \<Rightarrow> upstream \<Rightarrow> json \<Rightarrow> event list \<times> reply" where
  "handle_search cfg fmt up body =
     (let q = js_or body (JObject []) in
      case query_complete q of
        Inl e \<Rightarrow> ([ConsoleError (Some ''Search error:'') e], error_reply e)
      | Inr False \<Rightarrow> ([], Reply 400 (BodyError required_msg))
      | Inr True \<Rightarrow>
          (case searchAmadeus cfg fmt up q of
             (rs, Inl e) \<Rightarrow> (map Upstream rs @ [ConsoleError (Some ''Search error:'') e], error_reply e)
           | (rs, Inr opts) \<Rightarrow> (map Upstream rs, Reply 200 (BodyOptions opts))))"

definition handle_health :: reply where
  "handle_health = Reply 200 BodyOk"

section \<open>Specification of the error message and examples\<close>

text \<open>The text an upstream error contributes: its \<open>detail\<close>, else its \<open>title\<close>, else its JSON.\<close>

definition error_msg :: "json \<Rightarrow> json" where
  "error_msg e = js_or (get_opt e ''detail'') (js_or (get_opt e ''title'') (json_stringify e))"

definition example_cfg :: config where
  "example_cfg = \<lparr>amadeus_key = JString ''key'', amadeus_secret = JString ''secret''\<rparr>"

text \<open>A formatter that passes an ISO date through, and an upstream that answers every
  token request with \<open>tok\<close> and every search with \<open>res\<close>.\<close>

definition example_fmt :: date_format where
  "example_fmt v = Inr (js_to_string v)"

definition example_upstream :: "json \<Rightarrow> json \<Rightarrow> upstream" where
  "example_upstream tok res r = (case r of TokenPost b \<Rightarrow> Inr tok | OffersGet u a \<Rightarrow> Inr res)"

definition example_token :: json where
  "example_token = JObject [(''access_token'', JString ''tok'')]"

definition example_query :: "string \<Rightarrow> json" where
  "example_query opt =
     JObject [(''from'', JString ''JFK''), (''to'', JString ''LAX''), (''start'', JString ''2024-06-01''),
              (''optimize'', JString opt)]"

section \<open>Lemmas\<close>

lemma error_text_msg: "\<not> nullish e \<Longrightarrow> error_text e = Inr (error_msg e)"
  by (cases e) (auto simp: error_text_def error_msg_def get_opt_def js_or_def)

lemma emap_error_text: "\<forall>e \<in> set es. \<not> nullish e \<Longrightarrow> emap error_text es = Inr (map error_msg es)"
  by (rule emap_const_Inr) (simp add: error_text_msg)

lemma check_errors_list:
  assumes "map_of kvs ''errors'' = Some (JArray es)" "es \<noteq> []" "\<forall>e \<in> set es. \<not> nullish e"
  shows "check_errors (JObject kvs) = Inl (Error (''Amadeus error: '' @ js_join '' | '' (map error_msg es)))"
  using assms by (simp add: check_errors_def get_opt_def nat_num_def emap_error_text)

lemma search_params_not_nullish: "search_params fmt q = Inr ps \<Longrightarrow> \<not> nullish q"
  by (cases q) (simp_all add: search_params_def)

lemma getAccessToken_fst: "fst (getAccessToken cfg up) = [TokenPost (form_urlencode (token_form cfg))]"
  by (simp add: getAccessToken_def Let_def)

lemma searchAmadeus_cases:
  "searchAmadeus cfg fmt up q =
     (case (snd (getAccessToken cfg up), search_params fmt q) of
        (Inl e, _) \<Rightarrow> ([TokenPost (form_urlencode (token_form cfg))], Inl e)
      | (Inr token, Inl e) \<Rightarrow> ([TokenPost (form_urlencode (token_form cfg))], Inl e)
      | (Inr token, Inr ps) \<Rightarrow>
          ([TokenPost (form_urlencode (token_form cfg)), offers_request ps token],
           ebind (up (offers_request ps token)) (\<lambda>res.
           ebind (check_errors res) (\<lambda>_.
           ebind (offers_data res) (\<lambda>data.
           ebind (map_offers data) (\<lambda>mapped.
           ebind (get_prop q ''optimize'') (\<lambda>opt. Inr (rank_options opt mapped))))))))"
  by (simp add: searchAmadeus_def getAccessToken_def Let_def split: sum.splits)

text \<open>The calls of ky a search makes: the token request first, then the offer search
  exactly when the token call succeeded and the query parameters were built.  Each call
  is one request here; \<open>Ky.search_wire\<close> expands the GET into ky's attempts.\<close>

theorem searchAmadeus_requests:
  "fst (searchAmadeus cfg fmt up q) =
     TokenPost (form_urlencode (token_form cfg)) #
     (case (snd (getAccessToken cfg up), search_params fmt q) of
        (Inr token, Inr ps) \<Rightarrow> [offers_request ps token]
      | _ \<Rightarrow> [])"
  by (simp add: searchAmadeus_cases split: sum.splits)

text \<open>C27. The first request of every search is the token POST, and its body, read by the upstream with the URL standard's form parser, is exactly the three fields of lines 118-122: \<open>grant_type=client_credentials\<close>, \<open>client_id\<close> and \<open>client_secret\<close> with the credentials through \<open>ToString\<close>, whatever characters they hold.\<close>

theorem token_request_body:
  "\<exists>b. hd (fst (searchAmadeus cfg fmt up q)) = TokenPost b \<and>
       form_parse b = [(''grant_type'', ''client_credentials''), (''client_id'', js_to_string (amadeus_key cfg)),
                       (''client_secret'', js_to_string (amadeus_secret cfg))]"
  by (simp add: searchAmadeus_requests form_parse_urlencode token_form_def params_of_record_def)

text \<open>C18. The offer search request carries the parameters built by lines 131-140 as the query string of its URL, which the upstream, parsing it with the URL standard's form parser, reads back to exactly those parameters in order, whatever characters they hold; the token goes in the header \<open>Authorization: Bearer\<close>.\<close>

theorem search_request_query:
  assumes "snd (getAccessToken cfg up) = Inr token" and "search_params fmt q = Inr ps"
  shows "\<exists>qs. fst (searchAmadeus cfg fmt up q) =
                [TokenPost (form_urlencode (token_form cfg)),
                 OffersGet (offers_url @ ''?'' @ qs) (''Bearer '' @ js_to_string token)] \<and>
              form_parse qs = ps"
  using assms by (simp add: searchAmadeus_requests offers_request_def form_parse_urlencode)

text \<open>C8. When the upstream answers the search with a non-empty \<open>errors\<close> array of objects, \<open>searchAmadeus\<close> throws \<open>Error('Amadeus error: ' + msgs.join(' | '))\<close>, each message the error's \<open>detail\<close>, else its \<open>title\<close>, else its JSON text; the result does not depend on the response's \<open>data\<close>, so no offer is mapped.\<close>

theorem searchAmadeus_upstream_errors:
  assumes "snd (getAccessToken cfg up) = Inr token" and "search_params fmt q = Inr ps"
    and "up (offers_request ps token) = Inr (JObject kvs)"
    and "map_of kvs ''errors'' = Some (JArray es)" and "es \<noteq> []" and "\<forall>e \<in> set es. \<not> nullish e"
  shows "snd (searchAmadeus cfg fmt up q) = Inl (Error (''Amadeus error: '' @ js_join '' | '' (map error_msg es)))"
  using assms by (simp add: searchAmadeus_cases check_errors_list)

lemma rank_options_Nil [simp]: "rank_options opt [] = []"
  by (simp add: rank_options_def balanced_scores_def Let_def)

text \<open>C10. When the upstream reports no errors and its \<open>data\<close> is absent or not an array, \<open>searchAmadeus\<close> sends the token request and the search request and returns the empty list, not an error.\<close>

theorem searchAmadeus_no_data:
  assumes "snd (getAccessToken cfg up) = Inr token" and "search_params fmt q = Inr ps"
    and "up (offers_request ps token) = Inr (JObject kvs)"
    and "check_errors (JObject kvs) = Inr ()"
    and "\<forall>xs. map_of kvs ''data'' \<noteq> Some (JArray xs)"
  shows "searchAmadeus cfg fmt up q = ([TokenPost (form_urlencode (token_form cfg)), offers_request ps token], Inr [])"
proof -
  have "offers_data (JObject kvs) = Inr []"
    using assms(5) by (auto simp: offers_data_def split: option.splits json.splits)
  moreover have "\<exists>r. get_prop q ''optimize'' = Inr r"
    using search_params_not_nullish [OF assms(2)] by (rule get_prop_not_nullish)
  ultimately show ?thesis using assms(1-4) by (auto simp: searchAmadeus_cases map_offers_def)
qed

text \<open>C13. Once the token, the query parameters and the search response are obtained, \<open>searchAmadeus\<close> returns the options \<open>opts\<close> exactly when the upstream error check passes, the \<open>data\<close> list is read and every offer maps, and \<open>opts\<close> is then the mapped list ranked by \<open>q.optimize\<close>: every failing step makes the search fail.\<close>

theorem searchAmadeus_success:
  assumes "snd (getAccessToken cfg up) = Inr token" and "search_params fmt q = Inr ps"
    and "up (offers_request ps token) = Inr res"
  shows "snd (searchAmadeus cfg fmt up q) = Inr opts \<longleftrightarrow>
           check_errors res = Inr () \<and>
           (\<exists>data mapped. offers_data res = Inr data \<and> map_offers data = Inr mapped \<and>
              opts = rank_options (get_opt q ''optimize'') mapped)"
  using assms search_params_not_nullish [OF assms(2)]
  by (auto simp: searchAmadeus_cases get_prop_eq_get_opt ebind_eq_Inr_iff)

text \<open>C25. A token response that lacks \<open>access_token\<close> does not raise an error: the search request is still sent, with the header \<open>Authorization: Bearer undefined\<close>.\<close>

theorem getAccessToken_missing_token:
  assumes "up (TokenPost (form_urlencode (token_form cfg))) = Inr (JObject kvs)"
    and "map_of kvs ''access_token'' = None" and "search_params fmt q = Inr ps"
  shows "fst (searchAmadeus cfg fmt up q) =
           [TokenPost (form_urlencode (token_form cfg)), OffersGet (offers_url @ ''?'' @ form_urlencode ps) ''Bearer undefined'']"
proof -
  have "snd (getAccessToken cfg up) = Inr JUndefined"
    using assms(1,2) by (simp add: getAccessToken_def Let_def)
  with assms(3) show ?thesis by (simp add: searchAmadeus_cases offers_request_def)
qed

lemma error_msg_not_nullish: "\<not> nullish e \<Longrightarrow> \<not> nullish (error_msg e)"
  by (cases e) (auto simp: error_msg_def js_or_def json_stringify_def dest: nullish_not_truthy)

lemma js_join_infix:
  "x \<in> set xs \<Longrightarrow> \<not> nullish x \<Longrightarrow> \<exists>u v. js_join sep xs = u @ js_to_string x @ v"
  unfolding js_join_def by (rule join_with_infix) force

text \<open>C9. The message of the upstream-error exception contains the text of every error entry (its \<open>detail\<close>, \<open>title\<close> or JSON), not only the first.\<close>

theorem searchAmadeus_error_mentions:
  assumes "snd (getAccessToken cfg up) = Inr token" and "search_params fmt q = Inr ps"
    and "up (offers_request ps token) = Inr (JObject kvs)"
    and "map_of kvs ''errors'' = Some (JArray es)" and "\<forall>e \<in> set es. \<not> nullish e"
    and "e \<in> set es"
  shows "\<exists>u v. snd (searchAmadeus cfg fmt up q) = Inl (Error (''Amadeus error: '' @ u @ js_to_string (error_msg e) @ v))"
proof -
  have "es \<noteq> []" using assms(6) by auto
  then have "snd (searchAmadeus cfg fmt up q) = Inl (Error (''Amadeus error: '' @ js_join '' | '' (map error_msg es)))"
    using assms(1-5) by (simp add: searchAmadeus_cases check_errors_list)
  moreover have "\<exists>u v. js_join '' | '' (map error_msg es) = u @ js_to_string (error_msg e) @ v"
    using assms(5,6) by (intro js_join_infix) (auto simp: error_msg_not_nullish)
  ultimately show ?thesis by auto
qed

lemma truthy_not_nullish: "truthy v \<Longrightarrow> \<not> nullish v"
  by (cases v) simp_all

lemma body_or_empty: "\<not> nullish (js_or body (JObject []))"
  by (cases "truthy body") (simp_all add: truthy_not_nullish)

lemma query_complete_iff:
  "\<not> nullish q \<Longrightarrow>
   query_complete q = Inr (truthy (get_opt q ''from'') \<and> truthy (get_opt q ''to'') \<and> truthy (get_opt q ''start''))"
  by (simp add: query_complete_def get_prop_eq_get_opt)

lemma handle_search_query:
  "handle_search cfg fmt up body =
     (let q = js_or body (JObject []) in
      if truthy (get_opt q ''from'') \<and> truthy (get_opt q ''to'') \<and> truthy (get_opt q ''start'')
      then (case searchAmadeus cfg fmt up q of
              (rs, Inl e) \<Rightarrow> (map Upstream rs @ [ConsoleError (Some ''Search error:'') e], error_reply e)
            | (rs, Inr opts) \<Rightarrow> (map Upstream rs, Reply 200 (BodyOptions opts)))
      else ([], Reply 400 (BodyError required_msg)))"
  unfolding handle_search_def Let_def query_complete_iff [OF body_or_empty] by (simp add: bool.case_eq_if)

text \<open>C14. A request whose body lacks a truthy \<open>from\<close>, \<open>to\<close> or \<open>start\<close> is answered 400 with \<open>'from, to, start are required'\<close>, and no upstream request is sent.\<close>

theorem handle_search_incomplete:
  assumes "\<not> (truthy (get_opt (js_or body (JObject [])) ''from'') \<and> truthy (get_opt (js_or body (JObject [])) ''to'')
              \<and> truthy (get_opt (js_or body (JObject [])) ''start''))"
  shows "handle_search cfg fmt up body = ([], Reply 400 (BodyError required_msg))"
  using assms unfolding handle_search_query Let_def by auto

lemma error_reply_message:
  "error_reply e = Reply 500 (BodyError (JString (if error_message e = [] then ''Server error'' else error_message e)))"
  by (simp add: error_reply_def js_or_def)

text \<open>C15. For a complete query the handler performs the search's requests and replies 200 with the options, or logs the exception and replies 500 with its message, \<open>'Server error'\<close> when the message is empty.\<close>

theorem handle_search_reply:
  assumes "truthy (get_opt (js_or body (JObject [])) ''from'')" and "truthy (get_opt (js_or body (JObject [])) ''to'')"
    and "truthy (get_opt (js_or body (JObject [])) ''start'')"
  shows "handle_search cfg fmt up body =
           (case searchAmadeus cfg fmt up (js_or body (JObject [])) of
              (rs, Inl e) \<Rightarrow>
                (map Upstream rs @ [ConsoleError (Some ''Search error:'') e],
                 Reply 500 (BodyError (JString (if error_message e = [] then ''Server error'' else error_message e))))
            | (rs, Inr opts) \<Rightarrow> (map Upstream rs, Reply 200 (BodyOptions opts)))"
  using assms unfolding handle_search_query Let_def error_reply_message by simp

lemma search_params_departure:
  assumes "search_params fmt q = Inr ps"
  shows "\<exists>dep. fmt (get_opt q ''start'') = Inr dep \<and> ps ! 2 = (''departureDate'', dep)"
proof -
  have q: "\<not> nullish q" using assms by (rule search_params_not_nullish)
  show ?thesis
    using assms
    by (auto simp: search_params_def get_prop_eq_get_opt [OF q] params_of_record_def params_set_def
             ebind_eq_Inr_iff nth_append Let_def split: if_splits)
qed

text \<open>C26. The search parameters are, in order, \<open>originLocationCode\<close>, \<open>destinationLocationCode\<close> (the strings of \<open>q.from\<close>, \<open>q.to\<close>), the formatted start date, \<open>adults = String(q.pax || 1)\<close>, \<open>currencyCode = USD\<close>, \<open>max = 30\<close>, followed by \<open>returnDate\<close> exactly when \<open>q.end\<close> is truthy.\<close>

theorem search_params_spec:
  assumes "search_params fmt q = Inr ps"
  shows "\<exists>dep. fmt (get_opt q ''start'') = Inr dep \<and>
           take 6 ps = [(''originLocationCode'', js_to_string (get_opt q ''from'')),
                        (''destinationLocationCode'', js_to_string (get_opt q ''to'')),
                        (''departureDate'', dep),
                        (''adults'', js_to_string (js_or (get_opt q ''pax'') (nat_num 1))),
                        (''currencyCode'', ''USD''), (''max'', ''30'')] \<and>
           (if truthy (get_opt q ''end'')
            then \<exists>rd. fmt (get_opt q ''end'') = Inr rd \<and> drop 6 ps = [(''returnDate'', rd)]
            else drop 6 ps = [])"
proof -
  have q: "\<not> nullish q" using assms by (rule search_params_not_nullish)
  show ?thesis
    using assms
    by (auto simp: search_params_def get_prop_eq_get_opt [OF q] params_of_record_def params_set_def
             ebind_eq_Inr_iff split: if_splits)
qed

section \<open>Examples\<close>

lemmas pipeline_example_simps = example_cfg_def example_fmt_def example_upstream_def example_token_def example_query_def
  getAccessToken_def search_params_def offers_request_def params_of_record_def token_form_def nat_num_def get_opt_def
  num_to_string_def pos_num_to_string_def strip_zeros.simps nat_digits.simps

theorem searchAmadeus_upstream_errors_witness:
  "snd (searchAmadeus example_cfg example_fmt
          (example_upstream example_token (JObject [(''errors'', JArray [JObject [(''detail'', JString ''INVALID DATE'')],
                                                                          JObject [(''title'', JString ''BAD REQUEST'')]])]))
          (example_query ''cheapest''))
   = Inl (Error ''Amadeus error: INVALID DATE | BAD REQUEST'')"
proof -
  let ?es = "[JObject [(''detail'', JString ''INVALID DATE'')], JObject [(''title'', JString ''BAD REQUEST'')]]"
  let ?up = "example_upstream example_token (JObject [(''errors'', JArray ?es)])"
  obtain ps where ps: "search_params example_fmt (example_query ''cheapest'') = Inr ps"
    by (simp add: pipeline_example_simps)
  have "snd (getAccessToken example_cfg ?up) = Inr (JString ''tok'')" by (simp add: pipeline_example_simps)
  from searchAmadeus_upstream_errors [OF this ps, of "[(''errors'', JArray ?es)]" ?es]
  show ?thesis by (simp add: pipeline_example_simps error_msg_def js_join_def)
qed
theorem searchAmadeus_error_mentions_witness:
  "\<exists>u v. snd (searchAmadeus example_cfg example_fmt
          (example_upstream example_token (JObject [(''errors'', JArray [JObject [(''detail'', JString ''INVALID DATE'')],
                                                                          JObject [(''title'', JString ''BAD REQUEST'')]])]))
          (example_query ''cheapest''))
   = Inl (Error (''Amadeus error: '' @ u @ ''BAD REQUEST'' @ v))"
proof -
  let ?es = "[JObject [(''detail'', JString ''INVALID DATE'')], JObject [(''title'', JString ''BAD REQUEST'')]]"
  let ?up = "example_upstream example_token (JObject [(''errors'', JArray ?es)])"
  obtain ps where ps: "search_params example_fmt (example_query ''cheapest'') = Inr ps"
    by (simp add: pipeline_example_simps)
  have "snd (getAccessToken example_cfg ?up) = Inr (JString ''tok'')" by (simp add: pipeline_example_simps)
  from searchAmadeus_error_mentions [OF this ps, of "[(''errors'', JArray ?es)]" ?es "JObject [(''title'', JString ''BAD REQUEST'')]"]
  show ?thesis by (simp add: pipeline_example_simps error_msg_def)
qed

theorem searchAmadeus_no_data_witness:
  "\<exists>ps. searchAmadeus example_cfg example_fmt (example_upstream example_token (JObject [(''data'', JString ''none'')]))
          (example_query ''cheapest'')
        = ([TokenPost (form_urlencode (token_form example_cfg)), offers_request ps (JString ''tok'')], Inr [])"
proof -
  let ?up = "example_upstream example_token (JObject [(''data'', JString ''none'')])"
  obtain ps where ps: "search_params example_fmt (example_query ''cheapest'') = Inr ps"
    by (simp add: pipeline_example_simps)
  have "snd (getAccessToken example_cfg ?up) = Inr (JString ''tok'')" by (simp add: pipeline_example_simps)
  from searchAmadeus_no_data [OF this ps, of "[(''data'', JString ''none'')]"] show ?thesis
    by (auto simp: pipeline_example_simps check_errors_def)
qed

theorem getAccessToken_missing_token_witness:
  "\<exists>ps. fst (searchAmadeus example_cfg example_fmt (example_upstream (JObject [(''error'', JString ''invalid_client'')]) (JObject []))
          (example_query ''cheapest''))
        = [TokenPost (form_urlencode (token_form example_cfg)), OffersGet (offers_url @ ''?'' @ form_urlencode ps) ''Bearer undefined'']"
proof -
  let ?up = "example_upstream (JObject [(''error'', JString ''invalid_client'')]) (JObject [])"
  obtain ps where ps: "search_params example_fmt (example_query ''cheapest'') = Inr ps"
    by (simp add: pipeline_example_simps)
  have "?up (TokenPost (form_urlencode (token_form example_cfg))) = Inr (JObject [(''error'', JString ''invalid_client'')])"
    by (simp add: example_upstream_def)
  from getAccessToken_missing_token [where up = ?up and cfg = example_cfg and kvs = "[(''error'', JString ''invalid_client'')]", OF this _ ps]
  show ?thesis by auto
qed

theorem handle_search_incomplete_witness:
  "handle_search example_cfg example_fmt (example_upstream example_token (JObject []))
     (JObject [(''from'', JString ''JFK''), (''to'', JString '''')])
   = ([], Reply 400 (BodyError required_msg))"
  by (rule handle_search_incomplete) (simp add: get_opt_def)

theorem handle_search_reply_witness:
  "handle_search example_cfg example_fmt (example_upstream JNull (JObject [])) (example_query ''cheapest'')
   = ([Upstream (TokenPost (form_urlencode (token_form example_cfg))), ConsoleError (Some ''Search error:'') (TypeError (read_msg ''null'' ''access_token''))],
      Reply 500 (BodyError (JString (read_msg ''null'' ''access_token''))))"
proof -
  have "handle_search example_cfg example_fmt (example_upstream JNull (JObject [])) (example_query ''cheapest'') =
          (case searchAmadeus example_cfg example_fmt (example_upstream JNull (JObject [])) (js_or (example_query ''cheapest'') (JObject [])) of
              (rs, Inl e) \<Rightarrow>
                (map Upstream rs @ [ConsoleError (Some ''Search error:'') e],
                 Reply 500 (BodyError (JString (if error_message e = [] then ''Server error'' else error_message e))))
            | (rs, Inr opts) \<Rightarrow> (map Upstream rs, Reply 200 (BodyOptions opts)))"
    by (rule handle_search_reply) (simp_all add: example_query_def get_opt_def)
  then show ?thesis by (simp add: example_query_def searchAmadeus_def getAccessToken_def example_upstream_def read_msg_def)
qed

theorem search_params_spec_witness:
  "\<exists>ps dep. search_params example_fmt (example_query ''cheapest'') = Inr ps \<and> example_fmt (JString ''2024-06-01'') = Inr dep \<and>
     take 6 ps = [(''originLocationCode'', ''JFK''), (''destinationLocationCode'', ''LAX''), (''departureDate'', dep),
                  (''adults'', ''1''), (''currencyCode'', ''USD''), (''max'', ''30'')] \<and> drop 6 ps = []"
proof -
  obtain ps where ps: "search_params example_fmt (example_query ''cheapest'') = Inr ps"
    by (simp add: pipeline_example_simps)
  from search_params_spec [OF ps] ps show ?thesis by (auto simp: pipeline_example_simps)
qed

theorem searchAmadeus_success_witness:
  "\<exists>mapped. map_offers [example_offer JUndefined ''200.00'' ''PT5H30M'', example_offer (JString ''7'') ''150.00'' ''PT6H''] = Inr mapped \<and>
     snd (searchAmadeus example_cfg example_fmt
            (example_upstream example_token (JObject [(''data'', JArray [example_offer JUndefined ''200.00'' ''PT5H30M'', example_offer (JString ''7'') ''150.00'' ''PT6H''])]))
            (example_query ''cheapest''))
     = Inr (rank_options (JString ''cheapest'') mapped)"
proof -
  let ?data = "[example_offer JUndefined ''200.00'' ''PT5H30M'', example_offer (JString ''7'') ''150.00'' ''PT6H'']"
  let ?res = "JObject [(''data'', JArray ?data)]"
  let ?up = "example_upstream example_token ?res"
  obtain ps where ps: "search_params example_fmt (example_query ''cheapest'') = Inr ps"
    by (simp add: pipeline_example_simps)
  obtain mapped where m: "map_offers ?data = Inr mapped" by (simp add: example_simps)
  have tok: "snd (getAccessToken example_cfg ?up) = Inr (JString ''tok'')" by (simp add: pipeline_example_simps)
  have up: "?up (offers_request ps (JString ''tok'')) = Inr ?res" by (simp add: pipeline_example_simps)
  have chk: "check_errors ?res = Inr ()" by (simp add: check_errors_def get_opt_def)
  have dat: "offers_data ?res = Inr ?data" by (simp add: offers_data_def)
  have "snd (searchAmadeus example_cfg example_fmt ?up (example_query ''cheapest'')) =
                     Inr (rank_options (get_opt (example_query ''cheapest'') ''optimize'') mapped)"
    using searchAmadeus_success [OF tok ps up] chk dat m by blast
  with m show ?thesis by (simp add: example_query_def get_opt_def)
qed

theorem search_request_query_witness:
  "\<exists>ps qs. search_params example_fmt (example_query ''cheapest'') = Inr ps \<and>
     fst (searchAmadeus example_cfg example_fmt (example_upstream example_token (JObject [])) (example_query ''cheapest'')) =
       [TokenPost (form_urlencode (token_form example_cfg)),
        OffersGet (offers_url @ ''?'' @ qs) ''Bearer tok''] \<and>
     form_parse qs = ps"
proof -
  obtain ps where ps: "search_params example_fmt (example_query ''cheapest'') = Inr ps"
    by (simp add: pipeline_example_simps)
  have tok: "snd (getAccessToken example_cfg (example_upstream example_token (JObject []))) = Inr (JString ''tok'')"
    by (simp add: pipeline_example_simps)
  from search_request_query [OF tok ps] ps show ?thesis by simp
qed

end
