(* ===== verification/PipelineV1.thy ===== *)
theory PipelineV1
  imports Pipeline
begin

text \<open>
  The first version of the pipeline (\<open>src/index.js\<close> lines 1-93).  Its token
  exchange (lines 14-24) is its own function, \<open>getAccessToken_v1\<close>, shown equal to the
  second version's; its duration parser and offer mapping are the code of the second
  version (\<open>parseISODurationToMinutes\<close> and \<open>map_offers\<close> of the theories it
  imports).  It differs in the query parameters (a \<open>sort\<close> parameter, no
  \<open>returnDate\<close>), in having no upstream error check and no local ranking, and in the
  log line of its handler.
\<close>

section \<open>Token exchange\<close>

text \<open>Lines 14-24, the same code as lines 115-125.\<close>

definition getAccessToken_v1 :: "config \<Rightarrow> upstream \<Rightarrow> request list \<times> (js_error + json)" where
  "getAccessToken_v1 cfg up =
     (let r = TokenPost (form_urlencode (token_form cfg))
      in ([r], ebind (up r) (\<lambda>res. get_prop res ''access_token'')))"

section \<open>Query parameters and search\<close>

text \<open>The record of lines 36-44, in its evaluation order.\<close>

definition search_params_v1 :: "date_format \<Rightarrow> json \<Rightarrow> js_error + params" where
  "search_params_v1 fmt q =
     ebind (get_prop q ''from'') (\<lambda>org.
     ebind (get_prop q ''to'') (\<lambda>dst.
     ebind (get_prop q ''start'') (\<lambda>start.
     ebind (fmt start) (\<lambda>dep.
     ebind (get_prop q ''pax'') (\<lambda>pax.
     ebind (get_prop q ''optimize'') (\<lambda>opt.
       Inr (params_of_record
              [(''originLocationCode'', org), (''destinationLocationCode'', dst),
               (''departureDate'', JString dep),
               (''adults'', JString (js_to_string (js_or pax (nat_num 1)))),
               (''currencyCode'', JString ''USD''), (''max'', JString ''30''),
               (''sort'', JString (if opt = JString ''shortest'' then ''DURATION'' else ''PRICE''))])))))))"

text \<open>
  Lines 33-74.  The URL \<open>`...flight-offers?${params}`\<close> is the one \<open>ky\<close> builds
  from \<open>searchParams\<close> in the second version.
\<close>

definition searchAmadeus_v1 :: "config \<Rightarrow> date_format \<Rightarrow> upstream \<Rightarrow> json \<Rightarrow> request list \<times> (js_error + flight_option list)" where
  "searchAmadeus_v1 cfg fmt up q =
     (case getAccessToken_v1 cfg up of
        (rs, Inl e) \<Rightarrow> (rs, Inl e)
      | (rs, Inr token) \<Rightarrow>
          (case search_params_v1 fmt q of
             Inl e \<Rightarrow> (rs, Inl e)
           | Inr ps \<Rightarrow>
               let r = offers_request ps token
               in (rs @ [r], ebind (up r) (\<lambda>res. ebind (offers_data res) map_offers))))"

section \<open>The route handler\<close>

text \<open>Lines 76-88: the handler of the second version, logging with \<open>console.error(e)\<close>.\<close>

definition handle_search_v1 :: "config \<Rightarrow> date_format \<Rightarrow> upstream \<Rightarrow> json \<Rightarrow> event list \<times> reply" where
  "handle_search_v1 cfg fmt up body =
     (let q = js_or body (JObject []) in
      case query_complete q of
        Inl e \<Rightarrow> ([ConsoleError None e], error_reply e)
      | Inr False \<Rightarrow> ([], Reply 400 (BodyError required_msg))
      | Inr True \<Rightarrow>
          (case searchAmadeus_v1 cfg fmt up q of
             (rs, Inl e) \<Rightarrow> (map Upstream rs @ [ConsoleError None e], error_reply e)
           | (rs, Inr opts) \<Rightarrow> (map Upstream rs, Reply 200 (BodyOptions opts))))"

text \<open>Line 90.\<close>

definition handle_health_v1 :: reply where
  "handle_health_v1 = Reply 200 BodyOk"

section \<open>Lemmas\<close>

text \<open>The two token exchanges are the same function.\<close>

lemma getAccessToken_v1_eq: "getAccessToken_v1 = getAccessToken"
  by (simp add: fun_eq_iff getAccessToken_v1_def getAccessToken_def)

lemma search_params_v1_not_nullish: "search_params_v1 fmt q = Inr ps \<Longrightarrow> \<not> nullish q"
  by (cases q) (simp_all add: search_params_v1_def)

lemma searchAmadeus_v1_cases:
  "searchAmadeus_v1 cfg fmt up q =
     (case (snd (getAccessToken cfg up), search_params_v1 fmt q) of
        (Inl e, _) \<Rightarrow> ([TokenPost (form_urlencode (token_form cfg))], Inl e)
      | (Inr token, Inl e) \<Rightarrow> ([TokenPost (form_urlencode (token_form cfg))], Inl e)
      | (Inr token, Inr ps) \<Rightarrow>
          ([TokenPost (form_urlencode (token_form cfg)), offers_request ps token],
           ebind (up (offers_request ps token)) (\<lambda>res. ebind (offers_data res) map_offers)))"
  by (simp add: searchAmadeus_v1_def getAccessToken_v1_eq getAccessToken_def Let_def split: sum.splits)

text \<open>The first version's query has exactly the parameters origin, destination, departure date, adults, currency, max and \<open>sort\<close>, with \<open>sort = DURATION\<close> for \<open>'shortest'\<close> and \<open>PRICE\<close> otherwise, balanced included; it never sends a \<open>returnDate\<close>.\<close>

theorem search_params_v1_spec:
  assumes "search_params_v1 fmt q = Inr ps"
  shows "map fst ps = [''originLocationCode'', ''destinationLocationCode'', ''departureDate'', ''adults'',
                       ''currencyCode'', ''max'', ''sort''] \<and>
         snd (last ps) = (if get_opt q ''optimize'' = JString ''shortest'' then ''DURATION'' else ''PRICE'')"
proof -
  have q: "\<not> nullish q" using assms by (rule search_params_v1_not_nullish)
  show ?thesis
    using assms by (auto simp: search_params_v1_def get_prop_eq_get_opt [OF q] params_of_record_def ebind_eq_Inr_iff)
qed

text \<open>C29. The first version does not check the upstream error list: a response carrying errors and no \<open>data\<close> gives the empty option list instead of an error.\<close>

theorem searchAmadeus_v1_ignores_errors:
  assumes "snd (getAccessToken cfg up) = Inr token" and "search_params_v1 fmt q = Inr ps"
    and "up (offers_request ps token) = Inr (JObject kvs)"
    and "map_of kvs ''data'' = None"
  shows "snd (searchAmadeus_v1 cfg fmt up q) = Inr []"
  using assms by (simp add: searchAmadeus_v1_cases offers_data_def map_offers_def)

text \<open>C31. On the same upstream answer without errors, the second version returns the first version's options ranked locally by \<open>q.optimize\<close>: the two versions differ only in the ranking (and, on an error list, in the error check).\<close>

theorem searchAmadeus_v2_ranks_v1:
  assumes "snd (getAccessToken cfg up) = Inr token"
    and "search_params fmt q = Inr ps" and "search_params_v1 fmt q = Inr ps1"
    and "up (offers_request ps token) = Inr res" and "up (offers_request ps1 token) = Inr res"
    and "check_errors res = Inr ()"
  shows "snd (searchAmadeus cfg fmt up q) =
           ebind (snd (searchAmadeus_v1 cfg fmt up q)) (\<lambda>mapped. Inr (rank_options (get_opt q ''optimize'') mapped))"
  using assms search_params_not_nullish [OF assms(2)]
  by (simp add: searchAmadeus_cases searchAmadeus_v1_cases get_prop_eq_get_opt ebind_def split: sum.splits)

section \<open>Examples\<close>

theorem search_params_v1_spec_witness:
  "\<exists>ps. search_params_v1 example_fmt (example_query ''balanced'') = Inr ps \<and>
     map fst ps = [''originLocationCode'', ''destinationLocationCode'', ''departureDate'', ''adults'',
                   ''currencyCode'', ''max'', ''sort''] \<and> snd (last ps) = ''PRICE''"
proof -
  obtain ps where ps: "search_params_v1 example_fmt (example_query ''balanced'') = Inr ps"
    by (simp add: pipeline_example_simps search_params_v1_def)
  from search_params_v1_spec [OF ps] ps show ?thesis by (auto simp: example_query_def get_opt_def)
qed

theorem searchAmadeus_v1_ignores_errors_witness:
  "snd (searchAmadeus_v1 example_cfg example_fmt
          (example_upstream example_token (JObject [(''errors'', JArray [JObject [(''detail'', JString ''INVALID DATE'')]])]))
          (example_query ''cheapest'')) = Inr []"
proof -
  let ?up = "example_upstream example_token (JObject [(''errors'', JArray [JObject [(''detail'', JString ''INVALID DATE'')]])])"
  obtain ps where ps: "search_params_v1 example_fmt (example_query ''cheapest'') = Inr ps"
    by (simp add: pipeline_example_simps search_params_v1_def)
  have tok: "snd (getAccessToken example_cfg ?up) = Inr (JString ''tok'')" by (simp add: pipeline_example_simps)
  have up: "?up (offers_request ps (JString ''tok'')) = Inr (JObject [(''errors'', JArray [JObject [(''detail'', JString ''INVALID DATE'')]])])"
    by (simp add: pipeline_example_simps)
  show ?thesis by (rule searchAmadeus_v1_ignores_errors [OF tok ps up]) simp
qed

theorem searchAmadeus_v2_ranks_v1_witness:
  "snd (searchAmadeus example_cfg example_fmt
          (example_upstream example_token (JObject [(''data'', JArray [example_offer JUndefined ''200.00'' ''PT5H30M'', example_offer (JString ''7'') ''150.00'' ''PT6H''])]))
          (example_query ''cheapest'')) =
   ebind (snd (searchAmadeus_v1 example_cfg example_fmt
          (example_upstream example_token (JObject [(''data'', JArray [example_offer JUndefined ''200.00'' ''PT5H30M'', example_offer (JString ''7'') ''150.00'' ''PT6H''])]))
          (example_query ''cheapest'')))
     (\<lambda>mapped. Inr (rank_options (JString ''cheapest'') mapped))"
proof -
  let ?res = "JObject [(''data'', JArray [example_offer JUndefined ''200.00'' ''PT5H30M'', example_offer (JString ''7'') ''150.00'' ''PT6H''])]"
  let ?up = "example_upstream example_token ?res"
  obtain ps where ps: "search_params example_fmt (example_query ''cheapest'') = Inr ps"
    by (simp add: pipeline_example_simps)
  obtain ps1 where ps1: "search_params_v1 example_fmt (example_query ''cheapest'') = Inr ps1"
    by (simp add: pipeline_example_simps search_params_v1_def)
  have tok: "snd (getAccessToken example_cfg ?up) = Inr (JString ''tok'')" by (simp add: pipeline_example_simps)
  have up: "?up (offers_request ps (JString ''tok'')) = Inr ?res" "?up (offers_request ps1 (JString ''tok'')) = Inr ?res"
    by (simp_all add: pipeline_example_simps)
  have chk: "check_errors ?res = Inr ()" by (simp add: check_errors_def get_opt_def)
  from searchAmadeus_v2_ranks_v1 [OF tok ps ps1 up chk] show ?thesis by (simp add: example_query_def get_opt_def)
qed

end
