(* ===== verification/Server.thy ===== *)
theory Server
  imports Pipeline
begin

text \<open>
  The server as Node runs it: the handler of \<open>POST /api/search\<close> (lines 200-212) is
  an \<open>async\<close> function that stops at each \<open>await\<close> of an HTTP call (the token POST
  of \<open>getAccessToken\<close>, line 116, and the offer search, line 142), and requests that
  arrive meanwhile run their handlers in between.  A connection is a request body, the
  point its handler has reached and the events it produced; \<open>conn_step\<close> runs a
  handler from one await to the next, and \<open>server_step\<close> interleaves the arrival of
  requests and the steps of any of the open handlers.  The handlers share no state, so
  every reply is the one the sequential \<open>handle_search\<close> gives, whatever the
  interleaving; and every open handler can run to its reply.
\<close>

section \<open>Connections\<close>

datatype phase =
    Start
  | WaitToken
  | WaitOffers json params
  | Replied reply

text \<open>
  \<open>Start\<close>: the request has arrived; \<open>WaitToken\<close>: the token POST is sent;
  \<open>WaitOffers token ps\<close>: the offer search is sent; \<open>Replied r\<close>: the reply is sent.
\<close>

record conn =
  req_body :: json
  phase :: phase
  conn_log :: "event list"

definition new_conn :: "json \<Rightarrow> conn" where
  "new_conn b = \<lparr>req_body = b, phase = Start, conn_log = []\<rparr>"

definition fail_conn :: "conn \<Rightarrow> js_error \<Rightarrow> conn" where
  "fail_conn c e =
     c\<lparr>phase := Replied (error_reply e), conn_log := conn_log c @ [ConsoleError (Some ''Search error:'') e]\<rparr>"

text \<open>
  The handler from one await to the next: validation and the token POST; on the token
  response, \<open>res.access_token\<close>, the parameters and the offer search; on the search
  response, the error check, the mapping and the ranking.  Any exception goes to the
  \<open>catch\<close> of lines 208-211.
\<close>

definition conn_step :: "config \<Rightarrow> date_format \<Rightarrow> upstream \<Rightarrow> conn \<Rightarrow> conn option" where
  "conn_step cfg fmt up c =
     (let q = js_or (req_body c) (JObject []) in
      case phase c of
        Start \<Rightarrow>
          Some (case query_complete q of
                  Inl e \<Rightarrow> fail_conn c e
                | Inr False \<Rightarrow> c\<lparr>phase := Replied (Reply 400 (BodyError required_msg))\<rparr>
                | Inr True \<Rightarrow>
                    c\<lparr>phase := WaitToken,
                      conn_log := conn_log c @ [Upstream (TokenPost (form_urlencode (token_form cfg)))]\<rparr>)
      | WaitToken \<Rightarrow>
          Some (case ebind (up (TokenPost (form_urlencode (token_form cfg)))) (\<lambda>res. get_prop res ''access_token'') of
                  Inl e \<Rightarrow> fail_conn c e
                | Inr token \<Rightarrow>
                    (case search_params fmt q of
                       Inl e \<Rightarrow> fail_conn c e
                     | Inr ps \<Rightarrow>
                         c\<lparr>phase := WaitOffers token ps,
                           conn_log := conn_log c @ [Upstream (offers_request ps token)]\<rparr>))
      | WaitOffers token ps \<Rightarrow>
          Some (case ebind (up (offers_request ps token)) (\<lambda>res.
                       ebind (check_errors res) (\<lambda>_.
                       ebind (offers_data res) (\<lambda>data.
                       ebind (map_offers data) (\<lambda>mapped.
                       ebind (get_prop q ''optimize'') (\<lambda>opt. Inr (rank_options opt mapped)))))) of
                  Inl e \<Rightarrow> fail_conn c e
                | Inr opts \<Rightarrow> c\<lparr>phase := Replied (Reply 200 (BodyOptions opts))\<rparr>)
      | Replied r \<Rightarrow> None)"

definition conn_next :: "config \<Rightarrow> date_format \<Rightarrow> upstream \<Rightarrow> conn \<Rightarrow> conn" where
  "conn_next cfg fmt up c = (case conn_step cfg fmt up c of None \<Rightarrow> c | Some c' \<Rightarrow> c')"

fun replied :: "conn \<Rightarrow> bool" where
  "replied c = (case phase c of Replied r \<Rightarrow> True | _ \<Rightarrow> False)"

section \<open>The server\<close>

text \<open>A request arrives, or an open handler runs to its next await.\<close>

inductive server_step :: "config \<Rightarrow> date_format \<Rightarrow> upstream \<Rightarrow> conn list \<Rightarrow> conn list \<Rightarrow> bool"
  for cfg fmt up where
  arrive: "server_step cfg fmt up cs (cs @ [new_conn b])"
| advance: "i < length cs \<Longrightarrow> conn_step cfg fmt up (cs ! i) = Some c \<Longrightarrow> server_step cfg fmt up cs (cs[i := c])"

inductive_cases server_step_cases: "server_step cfg fmt up cs cs'"


section \<open>Every reply is the sequential one\<close>

definition final_conn :: "config \<Rightarrow> date_format \<Rightarrow> upstream \<Rightarrow> json \<Rightarrow> conn" where
  "final_conn cfg fmt up b =
     (case handle_search cfg fmt up b of (l, r) \<Rightarrow> \<lparr>req_body = b, phase = Replied r, conn_log = l\<rparr>)"

lemma conn_step_None: "conn_step cfg fmt up c = None \<longleftrightarrow> replied c"
  by (auto simp: conn_step_def Let_def split: phase.splits)

lemma replied_final_conn: "replied (final_conn cfg fmt up b)"
  by (simp add: final_conn_def split: prod.splits)

lemma funpow_conn_next_replied: "replied c \<Longrightarrow> (conn_next cfg fmt up ^^ n) c = c"
  by (induction n) (simp_all add: conn_next_def iffD2 [OF conn_step_None])

lemma conn_next_None: "conn_step cfg fmt up c = None \<Longrightarrow> conn_next cfg fmt up c = c"
  by (simp add: conn_next_def)

lemma conn_next_Some: "conn_step cfg fmt up c = Some c' \<Longrightarrow> conn_next cfg fmt up c = c'"
  by (simp add: conn_next_def)

lemma conn_run_three: "(conn_next cfg fmt up ^^ 3) (new_conn b) = final_conn cfg fmt up b"
  by (simp add: numeral_3_eq_3 conn_next_def conn_step_def new_conn_def final_conn_def fail_conn_def
      handle_search_def searchAmadeus_def getAccessToken_def Let_def
      split: sum.splits bool.splits)


lemma conn_run_replied:
  assumes "replied ((conn_next cfg fmt up ^^ n) (new_conn b))"
  shows "(conn_next cfg fmt up ^^ n) (new_conn b) = final_conn cfg fmt up b"
proof (cases "n \<le> 3")
  case True
  then have "final_conn cfg fmt up b = (conn_next cfg fmt up ^^ (3 - n)) ((conn_next cfg fmt up ^^ n) (new_conn b))"
    by (simp add: conn_run_three [symmetric] funpow_add [symmetric, THEN fun_cong, simplified])
  then show ?thesis using assms by (simp add: funpow_conn_next_replied)
next
  case False
  then have "(conn_next cfg fmt up ^^ n) (new_conn b) = (conn_next cfg fmt up ^^ (n - 3)) (final_conn cfg fmt up b)"
    by (simp add: conn_run_three [symmetric] funpow_add [symmetric, THEN fun_cong, simplified])
  then show ?thesis using funpow_conn_next_replied [OF replied_final_conn] by simp
qed

lemma conn_step_body: "conn_step cfg fmt up c = Some c' \<Longrightarrow> req_body c' = req_body c"
  by (auto simp: conn_step_def fail_conn_def Let_def split: phase.splits sum.splits bool.splits)

text \<open>A connection holds the state its handler reaches after some steps.\<close>

definition conn_ok :: "config \<Rightarrow> date_format \<Rightarrow> upstream \<Rightarrow> conn \<Rightarrow> bool" where
  "conn_ok cfg fmt up c = (\<exists>n. (conn_next cfg fmt up ^^ n) (new_conn (req_body c)) = c)"

lemma conn_ok_new: "conn_ok cfg fmt up (new_conn b)"
  unfolding conn_ok_def by (rule exI [of _ 0]) (simp add: new_conn_def)

lemma conn_ok_step:
  assumes "conn_ok cfg fmt up c" and "conn_step cfg fmt up c = Some c'"
  shows "conn_ok cfg fmt up c'"
proof -
  obtain n where "(conn_next cfg fmt up ^^ n) (new_conn (req_body c)) = c"
    using assms(1) by (auto simp: conn_ok_def)
  then have "(conn_next cfg fmt up ^^ Suc n) (new_conn (req_body c')) = c'"
    using assms(2) by (simp add: conn_step_body conn_next_Some)
  then show ?thesis unfolding conn_ok_def by blast
qed

lemma conn_ok_replied:
  "conn_ok cfg fmt up c \<Longrightarrow> phase c = Replied r \<Longrightarrow> (conn_log c, r) = handle_search cfg fmt up (req_body c)"
proof -
  assume "conn_ok cfg fmt up c" and r: "phase c = Replied r"
  then obtain n where n: "(conn_next cfg fmt up ^^ n) (new_conn (req_body c)) = c"
    by (auto simp: conn_ok_def)
  then have "c = final_conn cfg fmt up (req_body c)"
    using conn_run_replied [where n = n and b = "req_body c"] r by simp
  then have "phase c = phase (final_conn cfg fmt up (req_body c)) \<and>
      conn_log c = conn_log (final_conn cfg fmt up (req_body c))" by simp
  then show ?thesis using r by (simp add: final_conn_def split: prod.splits)
qed

lemma server_step_ok:
  assumes "server_step cfg fmt up cs cs'" and "\<forall>c \<in> set cs. conn_ok cfg fmt up c"
  shows "\<forall>c \<in> set cs'. conn_ok cfg fmt up c"
  using assms
proof (induction rule: server_step.induct)
  case (arrive cs b)
  then show ?case by (simp add: conn_ok_new)
next
  case (advance i cs c)
  then show ?case
    using set_update_subset_insert [of cs i c] conn_ok_step [where c = "cs ! i" and c' = c] by auto
qed

lemma reachable_ok:
  "(server_step cfg fmt up)\<^sup>*\<^sup>* cs cs' \<Longrightarrow> \<forall>c \<in> set cs. conn_ok cfg fmt up c \<Longrightarrow> \<forall>c \<in> set cs'. conn_ok cfg fmt up c"
  by (induction rule: rtranclp_induct) (simp, metis server_step_ok)

section \<open>Every handler can finish\<close>

lemma run_conn:
  "i < length cs \<Longrightarrow> (server_step cfg fmt up)\<^sup>*\<^sup>* cs (cs[i := (conn_next cfg fmt up ^^ k) (cs ! i)])"
proof (induction k)
  case 0
  then show ?case by simp
next
  case (Suc k)
  let ?d = "(conn_next cfg fmt up ^^ k) (cs ! i)"
  show ?case
  proof (cases "conn_step cfg fmt up ?d")
    case None
    then show ?thesis using Suc by (simp add: conn_next_None)
  next
    case (Some d')
    then have "server_step cfg fmt up (cs[i := ?d]) (cs[i := ?d, i := d'])"
      using Suc.prems server_step.advance [of i "cs[i := ?d]"] by simp
    then show ?thesis using Suc Some by (simp add: conn_next_Some rtranclp.rtrancl_into_rtrancl)
  qed
qed

lemma funpow_commute: "(f ^^ m) ((f ^^ n) x) = (f ^^ n) ((f ^^ m) x)"
  by (metis add.commute funpow_add comp_apply)

lemma finish_conn:
  assumes "i < length cs" and "conn_ok cfg fmt up (cs ! i)"
  shows "(server_step cfg fmt up)\<^sup>*\<^sup>* cs (cs[i := final_conn cfg fmt up (req_body (cs ! i))])"
proof -
  let ?f = "conn_next cfg fmt up" and ?b = "req_body (cs ! i)"
  obtain n where n: "(?f ^^ n) (new_conn ?b) = cs ! i"
    using assms(2) by (auto simp: conn_ok_def)
  have "(?f ^^ 3) (cs ! i) = (?f ^^ 3) ((?f ^^ n) (new_conn ?b))"
    by (simp only: n)
  also have "\<dots> = (?f ^^ n) ((?f ^^ 3) (new_conn ?b))"
    by (rule funpow_commute)
  also have "\<dots> = final_conn cfg fmt up ?b"
    by (simp only: conn_run_three funpow_conn_next_replied [OF replied_final_conn])
  finally show ?thesis
    using run_conn [OF assms(1), where cfg = cfg and fmt = fmt and up = up and k = 3] by simp
qed

lemma finish_all:
  "\<forall>c \<in> set cs. conn_ok cfg fmt up c \<Longrightarrow>
   (server_step cfg fmt up)\<^sup>*\<^sup>* (ps @ cs) (ps @ map (\<lambda>c. final_conn cfg fmt up (req_body c)) cs)"
proof (induction cs arbitrary: ps)
  case Nil
  then show ?case by simp
next
  case (Cons c cs)
  have "(server_step cfg fmt up)\<^sup>*\<^sup>* (ps @ c # cs) (ps @ final_conn cfg fmt up (req_body c) # cs)"
    using finish_conn [of "length ps" "ps @ c # cs" cfg fmt up] Cons.prems by (simp add: nth_append)
  moreover have "(server_step cfg fmt up)\<^sup>*\<^sup>* (ps @ final_conn cfg fmt up (req_body c) # cs)
      (ps @ final_conn cfg fmt up (req_body c) # map (\<lambda>c. final_conn cfg fmt up (req_body c)) cs)"
    using Cons.IH [of "ps @ [final_conn cfg fmt up (req_body c)]"] Cons.prems by simp
  ultimately have "(server_step cfg fmt up)\<^sup>*\<^sup>* (ps @ c # cs)
      (ps @ final_conn cfg fmt up (req_body c) # map (\<lambda>c. final_conn cfg fmt up (req_body c)) cs)"
    by (rule rtranclp_trans)
  then show ?case by simp
qed


lemma reachable_progress:
  "(server_step cfg fmt up)\<^sup>*\<^sup>* [] (map (\<lambda>(b, n). (conn_next cfg fmt up ^^ n) (new_conn b)) bns)"
proof (induction bns rule: rev_induct)
  case Nil
  then show ?case by simp
next
  case (snoc bn bns)
  obtain b n where bn: "bn = (b, n)" by (cases bn)
  let ?cs = "map (\<lambda>(b, n). (conn_next cfg fmt up ^^ n) (new_conn b)) bns"
  have "(server_step cfg fmt up)\<^sup>*\<^sup>* (?cs @ [new_conn b]) ((?cs @ [new_conn b])[length ?cs := (conn_next cfg fmt up ^^ n) (new_conn b)])"
    using run_conn [of "length ?cs" "?cs @ [new_conn b]" cfg fmt up n] by (simp add: nth_append)
  then have "(server_step cfg fmt up)\<^sup>*\<^sup>* (?cs @ [new_conn b]) (?cs @ [(conn_next cfg fmt up ^^ n) (new_conn b)])"
    by (metis list_update_length append_Nil2)
  moreover have "(server_step cfg fmt up)\<^sup>*\<^sup>* [] (?cs @ [new_conn b])"
    using snoc.IH server_step.arrive [of cfg fmt up ?cs b] by (rule rtranclp.rtrancl_into_rtrancl)
  ultimately show ?case using bn by simp
qed

lemma req_body_conn_next: "req_body (conn_next cfg fmt up c) = req_body c"
  by (simp add: conn_next_def conn_step_body split: option.splits)

lemma req_body_funpow: "req_body ((conn_next cfg fmt up ^^ n) c) = req_body c"
  by (induction n) (simp_all add: req_body_conn_next)

lemma req_body_final_conn: "req_body (final_conn cfg fmt up b) = b"
  by (simp add: final_conn_def split: prod.splits)

text \<open>C20. Whatever the interleaving of arrivals and of handler steps between \<open>await\<close>s, every reply the server has sent, and the events logged for its request, are those of the sequential handler on that request body.\<close>

theorem server_replies_sequential:
  assumes "(server_step cfg fmt up)\<^sup>*\<^sup>* [] cs" and "c \<in> set cs" and "phase c = Replied r"
  shows "(conn_log c, r) = handle_search cfg fmt up (req_body c)"
  using reachable_ok [OF assms(1)] assms(2,3) conn_ok_replied by simp

text \<open>C28. From every state the server reaches, its open handlers can all run on to a reply: a state is reachable in which every request has been answered, with the same request bodies.\<close>

theorem server_can_finish:
  assumes "(server_step cfg fmt up)\<^sup>*\<^sup>* [] cs"
  shows "\<exists>cs'. (server_step cfg fmt up)\<^sup>*\<^sup>* cs cs' \<and> map req_body cs' = map req_body cs \<and> (\<forall>c \<in> set cs'. replied c)"
proof (intro exI conjI)
  show "(server_step cfg fmt up)\<^sup>*\<^sup>* cs (map (\<lambda>c. final_conn cfg fmt up (req_body c)) cs)"
    using finish_all [of cs cfg fmt up "[]"] reachable_ok [OF assms] by simp
qed (auto simp: req_body_final_conn replied_final_conn simp del: replied.simps)

section \<open>Examples\<close>

text \<open>Two requests: the first has replied, the second waits for its token.\<close>

definition example_conns :: "conn list" where
  "example_conns =
     map (\<lambda>(b, n). (conn_next example_cfg example_fmt (example_upstream example_token (JObject [])) ^^ n) (new_conn b))
       [(example_query ''cheapest'', 3), (example_query ''fastest'', 1)]"

theorem server_replies_sequential_witness:
  "(server_step example_cfg example_fmt (example_upstream example_token (JObject [])))\<^sup>*\<^sup>* [] example_conns \<and>
   hd example_conns \<in> set example_conns \<and>
   phase (hd example_conns) = Replied (snd (handle_search example_cfg example_fmt (example_upstream example_token (JObject [])) (example_query ''cheapest''))) \<and>
   (conn_log (hd example_conns), snd (handle_search example_cfg example_fmt (example_upstream example_token (JObject [])) (example_query ''cheapest''))) =
     handle_search example_cfg example_fmt (example_upstream example_token (JObject [])) (req_body (hd example_conns))"
proof -
  have reach: "(server_step example_cfg example_fmt (example_upstream example_token (JObject [])))\<^sup>*\<^sup>* [] example_conns"
    unfolding example_conns_def by (rule reachable_progress)
  have hd: "hd example_conns = final_conn example_cfg example_fmt (example_upstream example_token (JObject [])) (example_query ''cheapest'')"
    by (simp add: example_conns_def conn_run_three)
  have ph: "phase (hd example_conns) = Replied (snd (handle_search example_cfg example_fmt (example_upstream example_token (JObject [])) (example_query ''cheapest'')))"
    by (simp add: hd final_conn_def split: prod.splits)
  have mem: "hd example_conns \<in> set example_conns" by (simp add: example_conns_def)
  show ?thesis
    using server_replies_sequential [OF reach mem ph] reach mem ph by (simp add: hd req_body_final_conn)
qed

theorem server_can_finish_witness:
  "\<exists>cs'. (server_step example_cfg example_fmt (example_upstream example_token (JObject [])))\<^sup>*\<^sup>* example_conns cs' \<and>
     map req_body cs' = [example_query ''cheapest'', example_query ''fastest''] \<and> (\<forall>c \<in> set cs'. replied c)"
proof -
  have reach: "(server_step example_cfg example_fmt (example_upstream example_token (JObject [])))\<^sup>*\<^sup>* [] example_conns"
    unfolding example_conns_def by (rule reachable_progress)
  have "map req_body example_conns = [example_query ''cheapest'', example_query ''fastest'']"
    by (simp add: example_conns_def req_body_funpow req_body_conn_next new_conn_def)
  then show ?thesis using server_can_finish [OF reach] by simp
qed

end
