(* ===== verification/JsonText.thy ===== *)
theory JsonText
  imports JsValue
begin

text \<open>
  JSON text as the program exchanges it.  \<open>res.json(obj)\<close> sends
  \<open>JSON.stringify(obj)\<close> (\<open>json_text\<close> of \<open>JsValue\<close>), and a client, like
  \<open>ky\<close>'s \<open>.json()\<close> on the upstream responses, reads a body with \<open>JSON.parse\<close>.
  This theory holds \<open>JSON.parse\<close> on the grammar of ECMA-404 (\<open>json_parse\<close>, a
  recursive descent run with fuel), the value a client reads back from a stringified
  value (\<open>json_wire\<close>) and the round trip between the two.
\<close>

section \<open>Tokens\<close>

definition json_ws :: "char \<Rightarrow> bool" where
  "json_ws c \<longleftrightarrow> c = CHR '' '' \<or> c = CHR 0x09 \<or> c = CHR 0x0A \<or> c = CHR 0x0D"

definition skip_ws :: "string \<Rightarrow> string" where
  "skip_ws s = dropWhile json_ws s"

definition hex4 :: "char \<Rightarrow> char \<Rightarrow> char \<Rightarrow> char \<Rightarrow> nat option" where
  "hex4 a b c d =
     (case (hex_val a, hex_val b, hex_val c, hex_val d) of
        (Some w, Some x, Some y, Some z) \<Rightarrow> Some (((w * 16 + x) * 16 + y) * 16 + z)
      | _ \<Rightarrow> None)"

text \<open>The escape sequences \<open>\"\<close>, \<open>\\\<close>, \<open>\/\<close>, \<open>\b\<close>, \<open>\f\<close>, \<open>\n\<close>, \<open>\r\<close>, \<open>\t\<close>.\<close>

definition short_escape :: "char \<Rightarrow> char option" where
  "short_escape d =
     (if d = CHR 0x22 then Some (CHR 0x22)
      else if d = CHR 0x5C then Some (CHR 0x5C)
      else if d = CHR ''/'' then Some (CHR ''/'')
      else if d = CHR ''b'' then Some (CHR 0x08)
      else if d = CHR ''f'' then Some (CHR 0x0C)
      else if d = CHR ''n'' then Some (CHR 0x0A)
      else if d = CHR ''r'' then Some (CHR 0x0D)
      else if d = CHR ''t'' then Some (CHR 0x09)
      else None)"

text \<open>
  The characters of a string after its opening quote, up to the closing quote.  A
  control character must be escaped; \<open>\uXXXX\<close> above \<open>\u00FF\<close> is outside the
  characters of the model and gives \<open>None\<close>.
\<close>

fun parse_chars :: "string \<Rightarrow> (string \<times> string) option" where
  "parse_chars [] = None"
| "parse_chars (c # s) =
     (if c = CHR 0x22 then Some ([], s)
      else if c = CHR 0x5C then
        (case s of
           [] \<Rightarrow> None
         | d # r \<Rightarrow>
             if d = CHR ''u'' then
               (case r of
                  a # b # x # y # r' \<Rightarrow>
                    (case hex4 a b x y of
                       Some n \<Rightarrow>
                         if n < 256 then map_option (\<lambda>(t, r''). (char_of n # t, r'')) (parse_chars r')
                         else None
                     | None \<Rightarrow> None)
                | _ \<Rightarrow> None)
             else
               (case short_escape d of
                  Some e \<Rightarrow> map_option (\<lambda>(t, r'). (e # t, r')) (parse_chars r)
                | None \<Rightarrow> None))
      else if (of_char c :: nat) < 0x20 then None
      else map_option (\<lambda>(t, r). (c # t, r)) (parse_chars s))"

section \<open>Numbers\<close>

text \<open>
  A number is kept as \<open>m \<cdot> 10^e\<close> with the trailing zeros of \<open>m\<close> moved into
  \<open>e\<close>, the form in which two texts of the same number give the same value.
\<close>

definition norm_num :: "int \<Rightarrow> int \<Rightarrow> json" where
  "norm_num m e =
     (if m = 0 then JNumber 0 0
      else case strip_zeros (nat \<bar>m\<bar>) e of (m', e') \<Rightarrow> JNumber (sgn m * int m') e')"

definition mk_number :: "bool \<Rightarrow> string \<Rightarrow> int \<Rightarrow> json" where
  "mk_number neg ds ex = norm_num (if neg then - int (digits_value ds) else int (digits_value ds)) ex"

definition parse_frac :: "string \<Rightarrow> (string \<times> string) option" where
  "parse_frac s =
     (case s of
        c # r \<Rightarrow>
          if c = CHR ''.'' then
            (let ds = takeWhile is_digit r in if ds = [] then None else Some (ds, dropWhile is_digit r))
          else Some ([], s)
      | [] \<Rightarrow> Some ([], []))"

definition parse_exp :: "string \<Rightarrow> (int \<times> string) option" where
  "parse_exp s =
     (case s of
        c # r \<Rightarrow>
          if c = CHR ''e'' \<or> c = CHR ''E'' then
            (let (neg, r') = (case r of
                                d # r'' \<Rightarrow> if d = CHR ''-'' then (True, r'')
                                           else if d = CHR ''+'' then (False, r'') else (False, r)
                              | [] \<Rightarrow> (False, r));
                 ds = takeWhile is_digit r'
             in if ds = [] then None
                else Some (if neg then - int (digits_value ds) else int (digits_value ds), dropWhile is_digit r'))
          else Some (0, s)
      | [] \<Rightarrow> Some (0, []))"

text \<open>\<open>-? (0 | [1-9][0-9]*) (. [0-9]+)? ([eE] [+-]? [0-9]+)?\<close>\<close>

definition parse_num_body :: "bool \<Rightarrow> string \<Rightarrow> (json \<times> string) option" where
  "parse_num_body neg s =
     (let ip = takeWhile is_digit s
      in if ip = [] \<or> (hd ip = CHR ''0'' \<and> ip \<noteq> ''0'') then None
         else (case parse_frac (dropWhile is_digit s) of
                 None \<Rightarrow> None
               | Some (fp, s2) \<Rightarrow>
                   (case parse_exp s2 of
                      None \<Rightarrow> None
                    | Some (ex, s3) \<Rightarrow> Some (mk_number neg (ip @ fp) (ex - int (length fp)), s3))))"

definition parse_number :: "string \<Rightarrow> (json \<times> string) option" where
  "parse_number s =
     (case s of
        c # r \<Rightarrow> if c = CHR ''-'' then parse_num_body True r else parse_num_body False s
      | [] \<Rightarrow> None)"

section \<open>Objects\<close>

text \<open>
  \<open>JSON.parse\<close> creates the properties of an object in the order of the text; a
  repeated key keeps its place and takes the later value.  The own keys of an ordinary
  object enumerate the array indices first, ascending, then the other keys in creation
  order (OrdinaryOwnPropertyKeys), and that is the order \<open>JSON.stringify\<close> prints.
\<close>

definition key_index :: "string \<Rightarrow> nat option" where
  "key_index k = (case array_index k of Some i \<Rightarrow> if i < 2 ^ 32 - 1 then Some i else None | None \<Rightarrow> None)"

fun obj_put :: "(string \<times> json) list \<Rightarrow> string \<Rightarrow> json \<Rightarrow> (string \<times> json) list" where
  "obj_put [] k v = [(k, v)]"
| "obj_put ((k', v') # kvs) k v = (if k' = k then (k, v) # kvs else (k', v') # obj_put kvs k v)"

definition obj_from_pairs :: "(string \<times> json) list \<Rightarrow> (string \<times> json) list" where
  "obj_from_pairs kvs =
     (let ps = foldl (\<lambda>acc (k, v). obj_put acc k v) [] kvs
      in sort_key (\<lambda>(k, v). the (key_index k)) (filter (\<lambda>(k, v). key_index k \<noteq> None) ps)
         @ filter (\<lambda>(k, v). key_index k = None) ps)"

section \<open>Values\<close>

text \<open>
  The recursive descent: \<open>parse_value\<close> reads one value after white space and returns
  the rest of the text; \<open>parse_elems\<close> and \<open>parse_members\<close> read the elements of
  an array and the members of an object after the first one's start.  Each call spends
  one unit of fuel; \<open>json_parse\<close> gives the length of the text, and a value's text
  is never shorter than the fuel it needs (\<open>json_fuel_le\<close> below).
\<close>

fun parse_value :: "nat \<Rightarrow> string \<Rightarrow> (json \<times> string) option"
and parse_elems :: "nat \<Rightarrow> json list \<Rightarrow> string \<Rightarrow> (json \<times> string) option"
and parse_members :: "nat \<Rightarrow> (string \<times> json) list \<Rightarrow> string \<Rightarrow> (json \<times> string) option" where
  "parse_value 0 s = None"
| "parse_value (Suc n) s =
     (case skip_ws s of
        [] \<Rightarrow> None
      | c # r \<Rightarrow>
          if c = CHR ''['' then
            (case skip_ws r of
               [] \<Rightarrow> None
             | d # r' \<Rightarrow> if d = CHR '']'' then Some (JArray [], r') else parse_elems n [] r)
          else if c = CHR ''{'' then
            (case skip_ws r of
               [] \<Rightarrow> None
             | d # r' \<Rightarrow> if d = CHR ''}'' then Some (JObject [], r') else parse_members n [] r)
          else if c = CHR 0x22 then map_option (\<lambda>(t, r'). (JString t, r')) (parse_chars r)
          else if take 4 (c # r) = ''null'' then Some (JNull, drop 3 r)
          else if take 4 (c # r) = ''true'' then Some (JBool True, drop 3 r)
          else if take 5 (c # r) = ''false'' then Some (JBool False, drop 4 r)
          else parse_number (c # r))"
| "parse_elems 0 acc s = None"
| "parse_elems (Suc n) acc s =
     (case parse_value n s of
        None \<Rightarrow> None
      | Some (v, r) \<Rightarrow>
          (case skip_ws r of
             [] \<Rightarrow> None
           | d # r' \<Rightarrow>
               if d = CHR '','' then parse_elems n (acc @ [v]) r'
               else if d = CHR '']'' then Some (JArray (acc @ [v]), r')
               else None))"
| "parse_members 0 acc s = None"
| "parse_members (Suc n) acc s =
     (case skip_ws s of
        [] \<Rightarrow> None
      | d # r \<Rightarrow>
          if d \<noteq> CHR 0x22 then None
          else (case parse_chars r of
                  None \<Rightarrow> None
                | Some (k, r1) \<Rightarrow>
                    (case skip_ws r1 of
                       [] \<Rightarrow> None
                     | e # r2 \<Rightarrow>
                         if e \<noteq> CHR '':'' then None
                         else (case parse_value n r2 of
                                 None \<Rightarrow> None
                               | Some (v, r3) \<Rightarrow>
                                   (case skip_ws r3 of
                                      [] \<Rightarrow> None
                                    | f # r4 \<Rightarrow>
                                        if f = CHR '','' then parse_members n (acc @ [(k, v)]) r4
                                        else if f = CHR ''}'' then Some (JObject (obj_from_pairs (acc @ [(k, v)])), r4)
                                        else None)))))"

definition json_parse :: "string \<Rightarrow> json option" where
  "json_parse s =
     (case parse_value (length s) s of
        Some (v, r) \<Rightarrow> if skip_ws r = [] then Some v else None
      | None \<Rightarrow> None)"

section \<open>What a client reads back\<close>

text \<open>
  \<open>JSON.parse(JSON.stringify(v))\<close>: \<open>undefined\<close> properties are dropped,
  \<open>undefined\<close> elements read as \<open>null\<close>, numbers in their normal form, objects with
  their keys in the order of an ordinary object.
\<close>

fun json_wire :: "json \<Rightarrow> json" where
  "json_wire JUndefined = JNull"
| "json_wire JNull = JNull"
| "json_wire (JBool b) = JBool b"
| "json_wire (JNumber m e) = norm_num m e"
| "json_wire (JString s) = JString s"
| "json_wire (JArray xs) = JArray (map json_wire xs)"
| "json_wire (JObject kvs) =
     JObject (obj_from_pairs (map (\<lambda>(k, v). (k, json_wire v)) (filter (\<lambda>(k, v). v \<noteq> JUndefined) kvs)))"

section \<open>Vocabulary of the round trip\<close>

text \<open>
  The text of an element (\<open>undefined\<close> is written \<open>null\<close> in an array), of an
  object member, the members \<open>JSON.stringify\<close> writes, the fuel a value's parse
  spends, and the characters that may follow a number or a value.
\<close>

definition num_follow :: "string \<Rightarrow> bool" where
  "num_follow r \<longleftrightarrow> r = [] \<or> (\<not> is_digit (hd r) \<and> hd r \<noteq> CHR ''.'' \<and> hd r \<noteq> CHR ''e'' \<and> hd r \<noteq> CHR ''E'')"

definition elem_text :: "json \<Rightarrow> string" where
  "elem_text v = (case json_text v of None \<Rightarrow> ''null'' | Some t \<Rightarrow> t)"

fun json_fuel :: "json \<Rightarrow> nat" where
  "json_fuel JUndefined = 1"
| "json_fuel JNull = 1"
| "json_fuel (JBool b) = 1"
| "json_fuel (JNumber m e) = 1"
| "json_fuel (JString s) = 1"
| "json_fuel (JArray xs) = Suc (sum_list (map (\<lambda>x. Suc (json_fuel x)) xs))"
| "json_fuel (JObject kvs) = Suc (sum_list (map (\<lambda>(k, v). if v = JUndefined then 0 else Suc (json_fuel v)) kvs))"

definition value_follow :: "string \<Rightarrow> bool" where
  "value_follow r \<longleftrightarrow> r = [] \<or> hd r = CHR '','' \<or> hd r = CHR '']'' \<or> hd r = CHR ''}''"

definition member_text :: "string \<times> json \<Rightarrow> string" where
  "member_text kv = (case kv of (k, v) \<Rightarrow> json_quote k @ '':'' @ elem_text v)"

definition defined_members :: "(string \<times> json) list \<Rightarrow> (string \<times> json) list" where
  "defined_members kvs = filter (\<lambda>(k, v). v \<noteq> JUndefined) kvs"

section \<open>The round trip\<close>

subsection \<open>Numbers\<close>


lemma strip_zeros_pow10: "0 < b \<Longrightarrow> strip_zeros (b * 10 ^ j) x = strip_zeros b (x + int j)"
proof (induction j arbitrary: x)
  case 0
  then show ?case by simp
next
  case (Suc j)
  have "strip_zeros (b * 10 ^ Suc j) x = strip_zeros (b * 10 ^ j) (x + 1)"
    using Suc.prems by (subst strip_zeros.simps) (simp add: ac_simps)
  then show ?case using Suc.IH [of "x + 1"] Suc.prems by (simp add: ac_simps)
qed

lemma norm_num_pow10: "norm_num (a * 10 ^ j) x = norm_num a (x + int j)"
proof (cases "a = 0")
  case False
  have "nat \<bar>a * 10 ^ j\<bar> = nat \<bar>a\<bar> * 10 ^ j" by (simp add: abs_mult nat_mult_distrib nat_power_eq)
  moreover have "sgn (a * 10 ^ j) = sgn a" by (simp add: sgn_mult)
  ultimately show ?thesis using False by (simp add: norm_num_def strip_zeros_pow10)
qed (simp add: norm_num_def)

lemma strip_zeros_norm:
  "strip_zeros m e = (m', e') \<Longrightarrow> 0 < m \<Longrightarrow> m' mod 10 \<noteq> 0"
proof (induction m e rule: strip_zeros.induct)
  case (1 m e)
  then show ?case
    by (cases "m mod 10 = 0") (auto simp: strip_zeros.simps [of m e] split: if_splits)
qed

lemma hd_nat_digits: "0 < m \<Longrightarrow> hd (nat_digits m) \<noteq> CHR ''0''"
proof (induction m rule: nat_digits.induct)
  case (1 n)
  show ?case
  proof (cases "n < 10")
    case True
    then show ?thesis using "1.prems" digit_char_inj [of n 0] by (simp add: nat_digits.simps [of n])
  next
    case False
    then show ?thesis using "1.IH" by (simp add: nat_digits.simps [of n])
  qed
qed


lemma is_digit_simps [simp]:
  "\<not> is_digit CHR ''.''" "\<not> is_digit CHR ''e''" "\<not> is_digit CHR ''E''" "\<not> is_digit CHR ''+''"
  "\<not> is_digit CHR ''-''" "is_digit CHR ''0''"
  by (simp_all add: is_digit_def)

lemma digits_value_zeros [simp]: "digits_value (replicate j CHR ''0'') = 0"
  by (induction j) (simp_all add: digits_value_def digit_val_def)

lemma digits_value_zeros_append [simp]: "digits_value (replicate j CHR ''0'' @ t) = digits_value t"
  by (simp add: digits_value_append)

lemma digits_value_zero_Cons' [simp]: "digits_value (CHR ''0'' # t) = digits_value t"
  using digits_value_zeros_append [of 1 t] by simp

lemma parse_frac_follow: "num_follow r \<Longrightarrow> parse_frac r = Some ([], r)"
  by (cases r) (auto simp: num_follow_def parse_frac_def)

lemma parse_exp_follow: "num_follow r \<Longrightarrow> parse_exp r = Some (0, r)"
  by (cases r) (auto simp: num_follow_def parse_exp_def)

lemma num_follow_not_digit: "num_follow r \<Longrightarrow> r = [] \<or> \<not> is_digit (hd r)"
  by (auto simp: num_follow_def)

lemma parse_frac_digits:
  "ds \<noteq> [] \<Longrightarrow> \<forall>c \<in> set ds. is_digit c \<Longrightarrow> r = [] \<or> \<not> is_digit (hd r) \<Longrightarrow>
   parse_frac (CHR ''.'' # ds @ r) = Some (ds, r)"
  using takeWhile_digits_append [of ds r] by (simp add: parse_frac_def)

lemma parse_exp_digits:
  "r = [] \<or> \<not> is_digit (hd r) \<Longrightarrow>
   parse_exp (CHR ''e'' # (if 0 \<le> x then CHR ''+'' else CHR ''-'') # nat_digits (nat \<bar>x\<bar>) @ r) = Some (x, r)"
  using takeWhile_digits_append [of "nat_digits (nat \<bar>x\<bar>)" r] nat_digits_all_digits [of "nat \<bar>x\<bar>"]
  by (auto simp: parse_exp_def)

lemma parse_num_body_split:
  assumes "ip \<noteq> []" and "\<forall>c \<in> set ip. is_digit c" and "hd ip \<noteq> CHR ''0'' \<or> ip = ''0''"
    and "rest = [] \<or> \<not> is_digit (hd rest)"
    and "parse_frac rest = Some (fp, s2)" and "parse_exp s2 = Some (ex, s3)"
  shows "parse_num_body neg (ip @ rest) = Some (mk_number neg (ip @ fp) (ex - int (length fp)), s3)"
  using assms takeWhile_digits_append [of ip rest] by (simp add: parse_num_body_def)


lemma mk_number_value:
  assumes "digits_value ds = m' * 10 ^ i" and "ex + int i = e'"
  shows "mk_number neg ds ex = norm_num (if neg then - int m' else int m') e'"
proof -
  have "mk_number neg ds ex = norm_num ((if neg then - int m' else int m') * 10 ^ i) ex"
    using assms(1) by (simp add: mk_number_def)
  then show ?thesis using assms(2) by (simp add: norm_num_pow10)
qed

lemma parse_pos_num:
  assumes m: "0 < m" and r: "num_follow r"
  shows "parse_num_body neg (pos_num_to_string m e @ r) = Some (norm_num (if neg then - int m else int m) e, r)"
proof -
  obtain m' e' where sz: "strip_zeros m e = (m', e')" by fastforce
  obtain j where mj: "m = m' * 10 ^ j" and ej: "e' = e + int j" and m': "0 < m'"
    using strip_zeros_spec [OF sz m] by blast
  define s where "s = nat_digits m'"
  define k where "k = int (length s)"
  define n where "n = k + e'"
  have sdig: "\<forall>c \<in> set s. is_digit c" by (simp add: s_def nat_digits_all_digits)
  have sne: "s \<noteq> []" by (simp add: s_def)
  have shd: "hd s \<noteq> CHR ''0''" using m' by (simp add: s_def hd_nat_digits)
  have sval: "digits_value s = m'" by (simp add: s_def)
  have k1: "1 \<le> k" using sne by (simp add: k_def Suc_le_eq)
  have rd: "r = [] \<or> \<not> is_digit (hd r)" using num_follow_not_digit [OF r] .
  have target: "norm_num (if neg then - int m else int m) e = norm_num (if neg then - int m' else int m') e'"
  proof -
    have "int m = int m' * 10 ^ j" using mj by simp
    then show ?thesis using ej by (simp add: norm_num_pow10 flip: mult_minus_left)
  qed
  have pt: "pos_num_to_string m e =
       (if k \<le> n \<and> n \<le> 21 then s @ replicate (nat (n - k)) CHR ''0''
        else if 0 < n \<and> n \<le> 21 then take (nat n) s @ ''.'' @ drop (nat n) s
        else if - 6 < n \<and> n \<le> 0 then ''0.'' @ replicate (nat (- n)) CHR ''0'' @ s
        else let x = n - 1; sg = (if 0 \<le> x then ''+'' else ''-''); xd = nat_digits (nat \<bar>x\<bar>)
             in if k = 1 then s @ ''e'' @ sg @ xd else [hd s] @ ''.'' @ tl s @ ''e'' @ sg @ xd)"
    by (simp add: pos_num_to_string_def sz s_def k_def n_def Let_def)
  show ?thesis
  proof (cases "k \<le> n \<and> n \<le> 21")
    case A: True
    let ?z = "replicate (nat (n - k)) CHR ''0''"
    have "parse_num_body neg ((s @ ?z) @ r) = Some (mk_number neg ((s @ ?z) @ []) (0 - int (length ([] :: string))), r)"
      by (rule parse_num_body_split) (use sne sdig shd rd r in \<open>auto simp: parse_frac_follow parse_exp_follow\<close>)
    moreover have "mk_number neg (s @ ?z) 0 = norm_num (if neg then - int m' else int m') e'"
      by (rule mk_number_value [where i = "nat (n - k)"]) (use A in \<open>simp_all add: digits_value_append sval n_def\<close>)
    ultimately show ?thesis using A pt target by simp
  next
    case notA: False
    show ?thesis
    proof (cases "0 < n \<and> n \<le> 21")
      case B: True
      have nk: "nat n < length s" using notA B by (simp add: k_def nat_less_iff)
      have "parse_num_body neg (take (nat n) s @ (CHR ''.'' # drop (nat n) s @ r)) =
              Some (mk_number neg (take (nat n) s @ drop (nat n) s) (0 - int (length (drop (nat n) s))), r)"
      proof (rule parse_num_body_split)
        show "parse_frac (CHR ''.'' # drop (nat n) s @ r) = Some (drop (nat n) s, r)"
          using nk sdig rd by (intro parse_frac_digits) (auto dest: in_set_dropD)
      qed (use B sne sdig shd r in \<open>auto simp: parse_exp_follow hd_take dest: in_set_takeD\<close>)
      moreover have "mk_number neg (take (nat n) s @ drop (nat n) s) (0 - int (length (drop (nat n) s))) =
          norm_num (if neg then - int m' else int m') e'"
        by (rule mk_number_value [where i = 0]) (use nk B in \<open>simp_all add: sval n_def k_def\<close>)
      ultimately show ?thesis using notA B pt target by simp
    next
      case notB: False
      show ?thesis
      proof (cases "- 6 < n \<and> n \<le> 0")
        case C: True
        let ?z = "replicate (nat (- n)) CHR ''0''"
        have "parse_num_body neg (''0'' @ (CHR ''.'' # (?z @ s) @ r)) =
                Some (mk_number neg (''0'' @ (?z @ s)) (0 - int (length (?z @ s))), r)"
        proof (rule parse_num_body_split)
          show "parse_frac (CHR ''.'' # (?z @ s) @ r) = Some (?z @ s, r)"
            using sdig rd sne by (intro parse_frac_digits) auto
        qed (use r in \<open>auto simp: parse_exp_follow\<close>)
        moreover have "mk_number neg (''0'' @ (?z @ s)) (0 - int (length (?z @ s))) =
            norm_num (if neg then - int m' else int m') e'"
          by (rule mk_number_value [where i = 0]) (use C in \<open>simp_all add: digits_value_append sval n_def k_def\<close>)
        ultimately show ?thesis using notA notB C pt target by simp
      next
        case notC: False
        define x where "x = n - 1"
        have pe: "parse_exp (CHR ''e'' # (if 0 \<le> x then CHR ''+'' else CHR ''-'') # nat_digits (nat \<bar>x\<bar>) @ r) = Some (x, r)"
          using rd by (rule parse_exp_digits)
        have sg: "(if 0 \<le> x then ''+'' else ''-'') @ t = (if 0 \<le> x then CHR ''+'' else CHR ''-'') # t" for t
          by simp
        show ?thesis
        proof (cases "k = 1")
          case True
          have "parse_num_body neg (s @ (CHR ''e'' # (if 0 \<le> x then CHR ''+'' else CHR ''-'') # nat_digits (nat \<bar>x\<bar>) @ r)) =
                  Some (mk_number neg (s @ []) (x - int (length ([] :: string))), r)"
            by (rule parse_num_body_split) (use sne sdig shd pe in \<open>auto simp: parse_frac_def\<close>)
          moreover have "mk_number neg (s @ []) (x - int (length ([] :: string))) =
              norm_num (if neg then - int m' else int m') e'"
            by (rule mk_number_value [where i = 0]) (use True in \<open>simp_all add: sval x_def n_def\<close>)
          moreover have "pos_num_to_string m e @ r =
              s @ (CHR ''e'' # (if 0 \<le> x then CHR ''+'' else CHR ''-'') # nat_digits (nat \<bar>x\<bar>) @ r)"
            using notA notB notC True pt by (cases "0 \<le> x") (simp_all add: Let_def x_def)
          ultimately show ?thesis using target by simp
        next
          case False
          have tl: "tl s \<noteq> []" using False sne by (cases s) (auto simp: k_def)
          have "parse_num_body neg ([hd s] @ (CHR ''.'' # tl s @ (CHR ''e'' # (if 0 \<le> x then CHR ''+'' else CHR ''-'') # nat_digits (nat \<bar>x\<bar>) @ r))) =
                  Some (mk_number neg ([hd s] @ tl s) (x - int (length (tl s))), r)"
          proof (rule parse_num_body_split)
            show "parse_frac (CHR ''.'' # tl s @ (CHR ''e'' # (if 0 \<le> x then CHR ''+'' else CHR ''-'') # nat_digits (nat \<bar>x\<bar>) @ r)) =
                Some (tl s, CHR ''e'' # (if 0 \<le> x then CHR ''+'' else CHR ''-'') # nat_digits (nat \<bar>x\<bar>) @ r)"
              using tl sdig sne by (intro parse_frac_digits) (auto dest: list.set_sel(2))
          qed (use sne sdig shd pe in \<open>auto\<close>)
          moreover have "mk_number neg ([hd s] @ tl s) (x - int (length (tl s))) =
              norm_num (if neg then - int m' else int m') e'"
            by (rule mk_number_value [where i = 0]) (use sne in \<open>simp_all add: sval x_def n_def k_def of_nat_diff Suc_le_eq\<close>)
          moreover have "pos_num_to_string m e @ r =
              [hd s] @ (CHR ''.'' # tl s @ (CHR ''e'' # (if 0 \<le> x then CHR ''+'' else CHR ''-'') # nat_digits (nat \<bar>x\<bar>) @ r))"
            using notA notB notC False pt by (cases "0 \<le> x") (simp_all add: Let_def x_def)
          ultimately show ?thesis using target sne by simp
        qed
      qed
    qed
  qed
qed


lemma parse_num_body_digit: "parse_num_body neg t = Some x \<Longrightarrow> t \<noteq> [] \<and> is_digit (hd t)"
  by (cases t) (auto simp: parse_num_body_def split: if_splits)

lemma parse_number_text:
  assumes r: "num_follow r"
  shows "parse_number (num_to_string m e @ r) = Some (norm_num m e, r)"
proof -
  consider (z) "m = 0" | (n) "m < 0" | (p) "0 < m" by linarith
  then show ?thesis
  proof cases
    case z
    have "parse_num_body False (''0'' @ r) = Some (mk_number False (''0'' @ []) (0 - int (length ([] :: string))), r)"
      by (rule parse_num_body_split) (use r in \<open>auto simp: parse_frac_follow parse_exp_follow num_follow_def\<close>)
    then show ?thesis using z by (simp add: num_to_string_def parse_number_def mk_number_def norm_num_def digit_val_def)
  next
    case n
    then have "parse_num_body True (pos_num_to_string (nat (- m)) e @ r) = Some (norm_num m e, r)"
      using parse_pos_num [of "nat (- m)" r True e] r by simp
    then show ?thesis using n by (simp add: num_to_string_def parse_number_def)
  next
    case p
    have pn: "parse_num_body False (pos_num_to_string (nat m) e @ r) = Some (norm_num m e, r)"
      using parse_pos_num [of "nat m" r False e] r p by simp
    have "pos_num_to_string (nat m) e \<noteq> [] \<and> hd (pos_num_to_string (nat m) e) \<noteq> CHR ''-''"
    proof (cases "pos_num_to_string (nat m) e")
      case Nil
      then show ?thesis using parse_num_body_digit [OF pn] r by (auto simp: num_follow_def)
    next
      case (Cons c t)
      then show ?thesis using parse_num_body_digit [OF pn] by auto
    qed
    then show ?thesis using p pn by (cases "pos_num_to_string (nat m) e") (auto simp: num_to_string_def parse_number_def)
  qed
qed

subsection \<open>Strings\<close>

lemma char_eq_of_char: "c = d \<longleftrightarrow> (of_char c :: nat) = of_char d"
  by (metis char_of_char)

lemma hex_val_hex_char: "d < 16 \<Longrightarrow> hex_val (hex_char d) = Some d"
  by (auto simp: hex_val_def hex_char_def Let_def of_char_of)

lemma parse_chars_escape:
  "parse_chars (json_escape_char c @ t) = map_option (\<lambda>(u, r). (c # u, r)) (parse_chars t)"
proof -
  define n where "n = (of_char c :: nat)"
  have n256: "n < 256" by (simp add: n_def)
  have cn: "c = char_of n" by (simp add: n_def)
  show ?thesis
  proof (cases "n < 0x20 \<and> n \<noteq> 0x08 \<and> n \<noteq> 0x0C \<and> n \<noteq> 0x0A \<and> n \<noteq> 0x0D \<and> n \<noteq> 0x09")
    case True
    have "hex4 CHR ''0'' CHR ''0'' (hex_char (n div 16)) (hex_char (n mod 16)) = Some n"
    proof -
      have "hex_val CHR ''0'' = Some 0" by (simp add: hex_val_def)
      moreover have "n div 16 < 16" using n256 by simp
      ultimately show ?thesis by (simp add: hex4_def hex_val_hex_char)
    qed
    then show ?thesis using True n256
      by (simp add: json_escape_char_def Let_def n_def [symmetric] cn [symmetric])
  next
    case False
    then have "c = CHR 0x5C \<or> c = CHR 0x22 \<or> c = CHR 0x08 \<or> c = CHR 0x0C \<or> c = CHR 0x0A \<or>
        c = CHR 0x0D \<or> c = CHR 0x09 \<or> (0x20 \<le> n \<and> n \<noteq> 0x22 \<and> n \<noteq> 0x5C)"
      by (auto simp: char_eq_of_char [of c] n_def)
    then show ?thesis
      by (elim disjE) (auto simp: json_escape_char_def Let_def n_def short_escape_def)
  qed
qed

lemma parse_chars_quote:
  "parse_chars (concat (map json_escape_char s) @ CHR 0x22 # r) = Some (s, r)"
  by (induction s) (simp_all add: parse_chars_escape)


subsection \<open>Values\<close>

lemma value_follow_num: "value_follow r \<Longrightarrow> num_follow r"
  by (auto simp: value_follow_def num_follow_def is_digit_def)

lemma num_text_start: "\<exists>c t. num_to_string m e = c # t \<and> (c = CHR ''-'' \<or> is_digit c)"
proof (cases "num_to_string m e")
  case Nil
  then show ?thesis using parse_number_text [of "[]" m e] by (simp add: num_follow_def parse_number_def)
next
  case (Cons c t)
  then show ?thesis using parse_number_text [of "[]" m e] parse_num_body_digit [of False "c # t"]
    by (auto simp: num_follow_def parse_number_def split: if_splits)
qed

lemma join_with_Cons: "join_with sep (s # ss) = s @ (if ss = [] then [] else sep @ join_with sep ss)"
  by (cases ss) simp_all

lemma json_text_None_iff: "json_text v = None \<longleftrightarrow> v = JUndefined"
  by (cases v) simp_all

lemma elem_text_defined: "v \<noteq> JUndefined \<Longrightarrow> json_text v = Some (elem_text v)"
  by (cases v) (simp_all add: elem_text_def)

lemma json_text_JArray: "json_text (JArray xs) = Some (CHR ''['' # join_with '','' (map elem_text xs) @ '']'')"
  by (simp add: elem_text_def [abs_def])

lemma concat_members:
  "concat (map (\<lambda>(k, v). case json_text v of None \<Rightarrow> [] | Some t \<Rightarrow> [json_quote k @ '':'' @ t]) kvs) =
   map member_text (defined_members kvs)"
  by (induction kvs) (auto simp: defined_members_def member_text_def json_text_None_iff elem_text_def split: option.splits)

lemma json_text_JObject:
  "json_text (JObject kvs) = Some (CHR ''{'' # join_with '','' (map member_text (defined_members kvs)) @ ''}'')"
  by (simp add: concat_members)

lemma json_wire_JObject:
  "json_wire (JObject kvs) = JObject (obj_from_pairs (map (\<lambda>(k, v). (k, json_wire v)) (defined_members kvs)))"
  by (simp add: defined_members_def)

lemma fuel_members:
  "sum_list (map (\<lambda>(k, v). if v = JUndefined then 0 else Suc (json_fuel v)) kvs) =
   sum_list (map (\<lambda>(k, v). Suc (json_fuel v)) (defined_members kvs))"
  by (induction kvs) (auto simp: defined_members_def)


lemma skip_ws_Cons [simp]: "\<not> json_ws c \<Longrightarrow> skip_ws (c # s) = c # s"
  by (simp add: skip_ws_def)

lemma json_ws_simps [simp]:
  "\<not> json_ws CHR '',''" "\<not> json_ws CHR '']''" "\<not> json_ws CHR ''}''" "\<not> json_ws CHR ''[''" "\<not> json_ws CHR ''{''"
  "\<not> json_ws CHR '':''" "\<not> json_ws CHR 0x22" "\<not> json_ws CHR ''n''" "\<not> json_ws CHR ''t''" "\<not> json_ws CHR ''f''"
  "\<not> json_ws CHR ''-''" "is_digit c \<Longrightarrow> \<not> json_ws c"
  by (auto simp: json_ws_def is_digit_def)

lemma skip_ws_Nil [simp]: "skip_ws [] = []"
  by (simp add: skip_ws_def)

lemma parse_elems_text:
  assumes "xs \<noteq> []"
    and "\<And>x n r. x \<in> set xs \<Longrightarrow> json_fuel x \<le> n \<Longrightarrow> value_follow r \<Longrightarrow>
           parse_value n (elem_text x @ r) = Some (json_wire x, r)"
    and "sum_list (map (\<lambda>x. Suc (json_fuel x)) xs) \<le> n"
  shows "parse_elems n acc (join_with '','' (map elem_text xs) @ CHR '']'' # r) = Some (JArray (acc @ map json_wire xs), r)"
  using assms
proof (induction xs arbitrary: n acc)
  case Nil
  then show ?case by simp
next
  case (Cons x xs)
  obtain n' where n: "n = Suc n'" using Cons.prems(3) by (cases n) auto
  let ?rest = "(if xs = [] then [] else CHR '','' # join_with '','' (map elem_text xs)) @ CHR '']'' # r"
  have "value_follow ?rest" by (simp add: value_follow_def)
  moreover have "json_fuel x \<le> n'" using Cons.prems(3) n by simp
  ultimately have px: "parse_value n' (elem_text x @ ?rest) = Some (json_wire x, ?rest)"
    using Cons.prems(2) [of x n' ?rest] by simp
  show ?case
  proof (cases "xs = []")
    case True
    then show ?thesis using px n by (simp add: join_with_Cons)
  next
    case False
    have "parse_elems n' (acc @ [json_wire x]) (join_with '','' (map elem_text xs) @ CHR '']'' # r) =
        Some (JArray ((acc @ [json_wire x]) @ map json_wire xs), r)"
      using Cons.IH [of n' "acc @ [json_wire x]"] False Cons.prems n by simp
    then show ?thesis using px n False by (simp add: join_with_Cons)
  qed
qed

lemma member_text_pair:
  "member_text (k, v) = CHR 0x22 # concat (map json_escape_char k) @ CHR 0x22 # CHR '':'' # elem_text v"
  by (simp add: member_text_def json_quote_def)

lemma parse_members_text:
  assumes "kvs \<noteq> []"
    and "\<And>k v n r. (k, v) \<in> set kvs \<Longrightarrow> json_fuel v \<le> n \<Longrightarrow> value_follow r \<Longrightarrow>
           parse_value n (elem_text v @ r) = Some (json_wire v, r)"
    and "sum_list (map (\<lambda>(k, v). Suc (json_fuel v)) kvs) \<le> n"
  shows "parse_members n acc (join_with '','' (map member_text kvs) @ CHR ''}'' # r) =
           Some (JObject (obj_from_pairs (acc @ map (\<lambda>(k, v). (k, json_wire v)) kvs)), r)"
  using assms
proof (induction kvs arbitrary: n acc)
  case Nil
  then show ?case by simp
next
  case (Cons kv kvs)
  obtain k v where kv: "kv = (k, v)" by fastforce
  obtain n' where n: "n = Suc n'" using Cons.prems(3) kv by (cases n) auto
  let ?rest = "(if kvs = [] then [] else CHR '','' # join_with '','' (map member_text kvs)) @ CHR ''}'' # r"
  have "value_follow ?rest" by (simp add: value_follow_def)
  moreover have "json_fuel v \<le> n'" using Cons.prems(3) n kv by simp
  ultimately have pv: "parse_value n' (elem_text v @ ?rest) = Some (json_wire v, ?rest)"
    using Cons.prems(2) [of k v n' ?rest] kv by simp
  have pk: "parse_chars (concat (map json_escape_char k) @ CHR 0x22 # CHR '':'' # elem_text v @ ?rest) =
      Some (k, CHR '':'' # elem_text v @ ?rest)"
    by (rule parse_chars_quote)
  show ?case
  proof (cases "kvs = []")
    case True
    then show ?thesis using pv pk n kv by (simp add: join_with_Cons member_text_pair)
  next
    case False
    have "parse_members n' (acc @ [(k, json_wire v)]) (join_with '','' (map member_text kvs) @ CHR ''}'' # r) =
        Some (JObject (obj_from_pairs ((acc @ [(k, json_wire v)]) @ map (\<lambda>(k, v). (k, json_wire v)) kvs)), r)"
    proof (rule Cons.IH)
      show "\<And>k v n r. (k, v) \<in> set kvs \<Longrightarrow> json_fuel v \<le> n \<Longrightarrow> value_follow r \<Longrightarrow>
          parse_value n (elem_text v @ r) = Some (json_wire v, r)"
        by (rule Cons.prems(2)) auto
    qed (use False Cons.prems(3) n kv in simp_all)
    then show ?thesis using pv pk n kv False by (simp add: join_with_Cons member_text_pair)
  qed
qed


lemma elem_text_start:
  "elem_text v \<noteq> [] \<and> \<not> json_ws (hd (elem_text v)) \<and> hd (elem_text v) \<noteq> CHR '']'' \<and> hd (elem_text v) \<noteq> CHR ''}''"
proof (cases v)
  case (JNumber m e)
  then show ?thesis using num_text_start [of m e] by (auto simp: elem_text_def is_digit_def)
qed (auto simp: elem_text_def json_quote_def json_text_JObject)

lemma elem_text_JArray: "elem_text (JArray xs) = CHR ''['' # join_with '','' (map elem_text xs) @ '']''"
  unfolding elem_text_def json_text_JArray by simp

lemma elem_text_JObject:
  "elem_text (JObject kvs) = CHR ''{'' # join_with '','' (map member_text (defined_members kvs)) @ ''}''"
  unfolding elem_text_def json_text_JObject by simp

lemma parse_value_text:
  "json_fuel v \<le> n \<Longrightarrow> value_follow r \<Longrightarrow> parse_value n (elem_text v @ r) = Some (json_wire v, r)"
proof (induction v arbitrary: n r rule: json_fuel.induct)
  case (4 m e)
  obtain c t where ct: "num_to_string m e = c # t" and c: "c = CHR ''-'' \<or> is_digit c"
    using num_text_start by blast
  obtain n' where n: "n = Suc n'" using "4.prems" by (cases n) auto
  have "parse_number (num_to_string m e @ r) = Some (norm_num m e, r)"
    using "4.prems" by (simp add: parse_number_text value_follow_num)
  with c show ?case using ct n by (auto simp: elem_text_def is_digit_def)
next
  case (5 s)
  obtain n' where n: "n = Suc n'" using "5.prems" by (cases n) auto
  show ?case using n by (simp add: elem_text_def json_quote_def parse_chars_quote)
next
  case (6 xs)
  obtain n' where n: "n = Suc n'" using "6.prems" by (cases n) auto
  show ?case
  proof (cases "xs = []")
    case True
    then show ?thesis using n by (simp add: elem_text_def)
  next
    case False
    obtain x xs' where xs: "xs = x # xs'" using False by (cases xs) auto
    obtain c t where J: "join_with '','' (map elem_text xs) = c # t" and c: "\<not> json_ws c \<and> c \<noteq> CHR '']''"
      using elem_text_start [of x] xs by (cases "elem_text x") (auto simp: join_with_Cons)
    have "parse_elems n' [] (join_with '','' (map elem_text xs) @ CHR '']'' # r) = Some (JArray ([] @ map json_wire xs), r)"
      by (rule parse_elems_text) (use False "6.IH" "6.prems" n in auto)
    then show ?thesis using n J c by (simp add: elem_text_JArray)
  qed
next
  case (7 kvs)
  obtain n' where n: "n = Suc n'" using "7.prems" by (cases n) auto
  show ?case
  proof (cases "defined_members kvs = []")
    case True
    then show ?thesis using n by (simp add: elem_text_JObject json_wire_JObject obj_from_pairs_def del: json_wire.simps)
  next
    case False
    obtain kv kvs' where d: "defined_members kvs = kv # kvs'" using False by (cases "defined_members kvs") auto
    obtain t where J: "join_with '','' (map member_text (defined_members kvs)) = CHR 0x22 # t"
      using d by (cases kv) (auto simp: join_with_Cons member_text_pair)
    have "parse_members n' [] (join_with '','' (map member_text (defined_members kvs)) @ CHR ''}'' # r) =
        Some (JObject (obj_from_pairs ([] @ map (\<lambda>(k, v). (k, json_wire v)) (defined_members kvs))), r)"
    proof (rule parse_members_text)
      show "\<And>k v n r. (k, v) \<in> set (defined_members kvs) \<Longrightarrow> json_fuel v \<le> n \<Longrightarrow> value_follow r \<Longrightarrow>
          parse_value n (elem_text v @ r) = Some (json_wire v, r)"
        by (rule "7.IH") (auto simp: defined_members_def)
      show "sum_list (map (\<lambda>(k, v). Suc (json_fuel v)) (defined_members kvs)) \<le> n'"
        using "7.prems" n by (simp add: fuel_members)
    qed (rule False)
    then show ?thesis using n J by (simp add: elem_text_JObject json_wire_JObject del: json_wire.simps)
  qed
qed (auto simp: elem_text_def dest!: Suc_le_D)


lemma sum_join_with:
  "length sep = 1 \<Longrightarrow> sum_list (map (\<lambda>t. Suc (length t)) ts) \<le> length (join_with sep ts) + 1"
  by (induction ts) (auto simp: join_with_Cons)

lemma json_fuel_le: "json_fuel v \<le> length (elem_text v)"
proof (induction v rule: json_fuel.induct)
  case (4 m e)
  then show ?case using num_text_start [of m e] by (auto simp: elem_text_def)
next
  case (6 xs)
  have "sum_list (map (\<lambda>x. Suc (json_fuel x)) xs) \<le> sum_list (map (\<lambda>t. Suc (length t)) (map elem_text xs))"
    using "6.IH" by (simp add: sum_list_mono)
  also have "\<dots> \<le> length (join_with '','' (map elem_text xs)) + 1"
    by (rule sum_join_with) simp
  finally show ?case by (simp add: elem_text_JArray del: json_fuel.simps) simp
next
  case (7 kvs)
  have "sum_list (map (\<lambda>(k, v). Suc (json_fuel v)) (defined_members kvs)) \<le>
      sum_list (map (\<lambda>kv. Suc (length (member_text kv))) (defined_members kvs))"
  proof (rule sum_list_mono)
    fix kv assume kvm: "kv \<in> set (defined_members kvs)"
    obtain k v where kv: "kv = (k, v)" by fastforce
    have "(k, v) \<in> set kvs" and "v \<noteq> JUndefined" using kvm kv by (simp_all add: defined_members_def)
    then have "json_fuel v \<le> length (elem_text v)" by (rule "7.IH" [OF _ refl])
    then show "(case kv of (k, v) \<Rightarrow> Suc (json_fuel v)) \<le> Suc (length (member_text kv))"
      using kv by (simp add: member_text_pair)
  qed
  also have "\<dots> = sum_list (map (\<lambda>t. Suc (length t)) (map member_text (defined_members kvs)))"
    by (simp add: comp_def)
  also have "\<dots> \<le> length (join_with '','' (map member_text (defined_members kvs))) + 1"
    by (rule sum_join_with) simp
  finally show ?case by (simp add: elem_text_JObject fuel_members)
qed (simp_all add: elem_text_def json_quote_def)

text \<open>The text of every value, as \<open>elem_text\<close> writes it, parses back to the value as a client sees it.\<close>

lemma json_parse_elem_text: "json_parse (elem_text v) = Some (json_wire v)"
proof -
  have "parse_value (length (elem_text v)) (elem_text v @ []) = Some (json_wire v, [])"
    using parse_value_text [of v _ "[]"] json_fuel_le [of v] by (simp add: value_follow_def)
  then show ?thesis by (simp add: json_parse_def)
qed

text \<open>Round trip of the JSON text the server writes: for every value that \<open>JSON.stringify\<close> writes, \<open>JSON.parse\<close> of the text gives back the value as a client sees it (\<open>json_wire\<close>): \<open>undefined\<close> properties dropped, \<open>undefined\<close> elements \<open>null\<close>, numbers in normal form.\<close>

theorem json_parse_text: "json_text v = Some t \<Longrightarrow> json_parse t = Some (json_wire v)"
proof -
  assume "json_text v = Some t"
  then have "elem_text v = t" by (simp add: elem_text_def)
  then show ?thesis using json_parse_elem_text [of v] by simp
qed


section \<open>Examples\<close>

theorem json_parse_text_witness:
  "\<exists>t. json_text (JObject [(''a'', JNumber 150 (- 2)), (''u'', JUndefined)]) = Some t \<and>
       json_parse t = Some (JObject [(''a'', JNumber 15 (- 1))])"
proof -
  obtain t where t: "json_text (JObject [(''a'', JNumber 150 (- 2)), (''u'', JUndefined)]) = Some t" by simp
  have "json_wire (JObject [(''a'', JNumber 150 (- 2)), (''u'', JUndefined)]) = JObject [(''a'', JNumber 15 (- 1))]"
    by code_simp
  then show ?thesis using json_parse_text [OF t] t by auto
qed

end
