(* ===== verification/Reply.thy ===== *)
theory Reply
  imports Pipeline JsonText
begin

text \<open>
  What the client receives: \<open>res.json(obj)\<close> sends \<open>JSON.stringify(obj)\<close> of the
  object literals of the handlers (lines 204, 207, 210 and 214), whose options are the
  objects built by the offer mapping (lines 154-174).  A number is written as its
  decimal; NaN and the infinities are written \<open>null\<close>.  The development shows that
  every reply of \<open>POST /api/search\<close> is sent, and that the client's
  \<open>JSON.parse\<close> of it gives an object of the documented shape.
\<close>

section \<open>Numbers in JSON\<close>

text \<open>
  The decimal \<open>m \<cdot> 10^e\<close> of a fraction whose denominator divides a power of ten.
  Every price is one (it comes from \<open>parseFloat\<close>); for other fractions, which
  IEEE-754 rounding would print differently, the model gives \<open>None\<close>.
\<close>

definition rat_decimal :: "rat \<Rightarrow> (int \<times> int) option" where
  "rat_decimal q =
     (case quotient_of q of (a, b) \<Rightarrow>
        map_option (\<lambda>k. (a * (10 ^ k div b), - int k)) (find (\<lambda>k. b dvd 10 ^ k) [0..<nat b + 1]))"

definition jsnum_json :: "jsnum \<Rightarrow> json option" where
  "jsnum_json x = (case x of Fin q \<Rightarrow> map_option (\<lambda>(m, e). JNumber m e) (rat_decimal q) | _ \<Rightarrow> Some JNull)"

section \<open>The reply objects\<close>

text \<open>The leg object of lines 155-163 and the option object of lines 165-174.\<close>

definition leg_json :: "leg \<Rightarrow> json" where
  "leg_json l =
     JObject [(''from'', leg_from l), (''to'', leg_to l), (''depart'', depart l), (''arrive'', arrive l),
              (''airline'', airline l), (''flightNo'', JString (flightNo l)), (''durationMin'', nat_num (durationMin l))]"

definition option_json :: "flight_option \<Rightarrow> json option" where
  "option_json opt =
     map_option (\<lambda>p. JObject [(''id'', option_id opt), (''provider'', JString (provider opt)), (''price'', p),
                             (''currency'', currency opt), (''legs'', JArray (map leg_json (legs opt))),
                             (''totalDurationMin'', nat_num (totalDurationMin opt)),
                             (''transfers'', JNumber (transfers opt) 0), (''notes'', JArray (option_notes opt))])
       (jsnum_json (price opt))"

text \<open>
  \<open>{ ok: true }\<close> (line 214), \<open>{ ok: true, options }\<close> (line 207) and
  \<open>{ ok: false, error }\<close> (lines 204 and 210).
\<close>

fun reply_object :: "reply_body \<Rightarrow> json option" where
  "reply_object BodyOk = Some (JObject [(''ok'', JBool True)])"
| "reply_object (BodyOptions os) =
     map_option (\<lambda>js. JObject [(''ok'', JBool True), (''options'', JArray js)]) (those (map option_json os))"
| "reply_object (BodyError e) = Some (JObject [(''ok'', JBool False), (''error'', e)])"

text \<open>\<open>res.status(s).json(obj)\<close>: the status and the body text.\<close>

definition res_json :: "reply \<Rightarrow> (nat \<times> string) option" where
  "res_json r =
     (case r of Reply s b \<Rightarrow>
        (case reply_object b of
           None \<Rightarrow> None
         | Some v \<Rightarrow> map_option (\<lambda>t. (s, t)) (json_text v)))"

section \<open>The documented shape\<close>

fun is_number :: "json \<Rightarrow> bool" where
  "is_number (JNumber m e) = True"
| "is_number _ = False"

definition leg_shape :: "json \<Rightarrow> bool" where
  "leg_shape v =
     (case v of
        JObject kvs \<Rightarrow>
          (case map_of kvs ''flightNo'' of Some (JString s) \<Rightarrow> True | _ \<Rightarrow> False) \<and>
          (case map_of kvs ''durationMin'' of Some n \<Rightarrow> is_number n | None \<Rightarrow> False)
      | _ \<Rightarrow> False)"

text \<open>
  An option as a client reads it: the provider, a number or \<open>null\<close> as the price,
  the legs, the two counts and no notes.  \<open>id\<close>, \<open>currency\<close> and the airports may
  be missing: \<open>JSON.stringify\<close> drops a property whose value is \<open>undefined\<close>.
\<close>

definition option_shape :: "json \<Rightarrow> bool" where
  "option_shape v =
     (case v of
        JObject kvs \<Rightarrow>
          map_of kvs ''provider'' = Some (JString ''AMADEUS'') \<and>
          (case map_of kvs ''price'' of Some p \<Rightarrow> p = JNull \<or> is_number p | None \<Rightarrow> False) \<and>
          (case map_of kvs ''legs'' of Some (JArray ls) \<Rightarrow> list_all leg_shape ls | _ \<Rightarrow> False) \<and>
          (case map_of kvs ''totalDurationMin'' of Some n \<Rightarrow> is_number n | None \<Rightarrow> False) \<and>
          (case map_of kvs ''transfers'' of Some n \<Rightarrow> is_number n | None \<Rightarrow> False) \<and>
          map_of kvs ''notes'' = Some (JArray [])
      | _ \<Rightarrow> False)"

text \<open>\<open>{ ok: true, options }\<close> with status 200, or \<open>{ ok: false, error }\<close> with a string error and status 400 or 500.\<close>

definition reply_shape :: "nat \<Rightarrow> json \<Rightarrow> bool" where
  "reply_shape s v =
     (case v of
        JObject [(k1, JBool ok), (k2, x)] \<Rightarrow>
          k1 = ''ok'' \<and>
          (if ok then s = 200 \<and> k2 = ''options'' \<and> (case x of JArray os \<Rightarrow> list_all option_shape os | _ \<Rightarrow> False)
           else (s = 400 \<or> s = 500) \<and> k2 = ''error'' \<and> (case x of JString m \<Rightarrow> True | _ \<Rightarrow> False))
      | _ \<Rightarrow> False)"

text \<open>Object keys that are distinct and no array index: such an object keeps its order.\<close>

definition plain_keys :: "(string \<times> json) list \<Rightarrow> bool" where
  "plain_keys kvs \<longleftrightarrow> distinct (map fst kvs) \<and> (\<forall>(k, v) \<in> set kvs. key_index k = None)"

section \<open>Lemmas\<close>

lemma rat_decimal_value:
  assumes "rat_decimal q = Some (m, e)"
  shows "q = of_int m / 10 ^ nat (- e)"
proof -
  obtain a b where ab: "quotient_of q = (a, b)" by fastforce
  then have q: "q = of_int a / of_int b" and b: "0 < b" by (simp_all add: quotient_of_div quotient_of_denom_pos)
  obtain k where f: "find (\<lambda>k. b dvd 10 ^ k) [0..<nat b + 1] = Some k" and m: "m = a * (10 ^ k div b)" and e: "e = - int k"
    using assms ab by (auto simp: rat_decimal_def)
  have "b dvd 10 ^ k" using f by (auto simp: find_Some_iff)
  then have "10 ^ k div b * b = 10 ^ k" by simp
  then have "(of_int (10 ^ k div b) :: rat) = 10 ^ k / of_int b" using b
    by (metis (mono_tags, opaque_lifting) nonzero_eq_divide_eq of_int_eq_0_iff of_int_mult of_int_numeral of_int_power less_irrefl)
  moreover have "q * of_int b = of_int a" using q b by simp
  ultimately have "q * 10 ^ k = of_int a * of_int (10 ^ k div b)"
    by (metis (no_types, lifting) b mult.assoc nonzero_mult_div_cancel_left of_int_0_less_iff
        less_irrefl times_divide_eq_right)
  then show ?thesis using m e by (simp add: field_simps)
qed

lemma rat_decimal_exists:
  assumes "q = of_int d * pow10 x"
  shows "rat_decimal q \<noteq> None"
proof -
  obtain a b where ab: "quotient_of q = (a, b)" by fastforce
  then have q: "q = of_int a / of_int b" and b: "0 < b" and cop: "coprime a b"
    by (simp_all add: quotient_of_div quotient_of_denom_pos quotient_of_coprime)
  define K where "K = nat (- x)"
  obtain z where z: "q * 10 ^ K = of_int z"
  proof (cases "0 \<le> x")
    case True
    then show ?thesis using assms that [of "d * 10 ^ nat x"] by (simp add: K_def pow10_def)
  next
    case False
    then show ?thesis using assms that [of d] by (simp add: K_def pow10_def)
  qed
  have "of_int (a * 10 ^ K) = (of_int (z * b) :: rat)"
    using z q b by (simp add: field_simps)
  then have "b dvd a * 10 ^ K" by (metis dvd_triv_right mult.commute of_int_eq_iff)
  then have "b dvd 10 ^ K" using cop by (simp add: coprime_commute coprime_dvd_mult_right_iff)
  then have "nat b dvd 10 ^ K" using b by (metis int_dvd_int_iff int_nat_eq less_le of_nat_numeral of_nat_power)
  then obtain k where k: "k \<le> nat b" "nat b dvd 10 ^ k" using pow10_dvd_bound by blast
  then have "b dvd 10 ^ k" using b by (metis int_dvd_int_iff int_nat_eq less_le of_nat_numeral of_nat_power)
  moreover have "k \<in> set [0..<nat b + 1]" using k(1) by (simp only: set_upt atLeastLessThan_iff) linarith
  ultimately have "find (\<lambda>k. b dvd 10 ^ k) [0..<nat b + 1] \<noteq> None" unfolding find_None_iff by blast
  then show ?thesis using ab by (auto simp: rat_decimal_def)
qed

lemma unsigned_decimal_dec: "unsigned_decimal u = Some q \<Longrightarrow> \<exists>n x. q = of_nat n * pow10 x"
  by (auto simp: unsigned_decimal_def Let_def split: if_splits)

lemma parseFloat_decimal: "parseFloat v = Fin q \<Longrightarrow> \<exists>d x. q = of_int d * pow10 x"
proof -
  assume p: "parseFloat v = Fin q"
  obtain neg u where s: "take_sign (dropWhile js_space (js_to_string v)) = (neg, u)" by fastforce
  obtain q0 where u: "unsigned_decimal u = Some q0" and q: "q = (if neg then - q0 else q0)"
    using p s by (auto simp: parseFloat_def split: if_splits option.splits)
  obtain n x where "q0 = of_nat n * pow10 x" using unsigned_decimal_dec [OF u] by blast
  then have "q = of_int (if neg then - int n else int n) * pow10 x" using q by simp
  then show ?thesis by blast
qed



lemma obj_put_fresh: "k \<notin> fst ` set acc \<Longrightarrow> obj_put acc k v = acc @ [(k, v)]"
  by (induction acc) auto

lemma foldl_obj_put:
  "distinct (map fst kvs) \<Longrightarrow> fst ` set kvs \<inter> fst ` set acc = {} \<Longrightarrow>
   foldl (\<lambda>acc (k, v). obj_put acc k v) acc kvs = acc @ kvs"
proof (induction kvs arbitrary: acc)
  case Nil
  then show ?case by simp
next
  case (Cons kv kvs)
  obtain k v where kv: "kv = (k, v)" by fastforce
  have "obj_put acc k v = acc @ [(k, v)]" using Cons.prems kv by (intro obj_put_fresh) auto
  moreover have "foldl (\<lambda>acc (k, v). obj_put acc k v) (acc @ [(k, v)]) kvs = (acc @ [(k, v)]) @ kvs"
    using Cons.prems kv by (intro Cons.IH) auto
  ultimately show ?case using kv by simp
qed

lemma obj_from_pairs_plain:
  assumes "distinct (map fst kvs)" and "\<forall>(k, v) \<in> set kvs. key_index k = None"
  shows "obj_from_pairs kvs = kvs"
proof -
  have "foldl (\<lambda>acc (k, v). obj_put acc k v) [] kvs = kvs" using assms(1) foldl_obj_put [of kvs "[]"] by simp
  moreover have "filter (\<lambda>(k, v). key_index k \<noteq> None) kvs = []" using assms(2) by (auto simp: filter_empty_conv)
  moreover have "filter (\<lambda>(k, v). key_index k = None) kvs = kvs" using assms(2) by (auto simp: filter_id_conv)
  ultimately show ?thesis by (simp add: obj_from_pairs_def)
qed

lemma plain_keys_defined: "plain_keys kvs \<Longrightarrow> plain_keys (map (\<lambda>(k, v). (k, json_wire v)) (defined_members kvs))"
proof -
  assume p: "plain_keys kvs"
  have f: "fst \<circ> (\<lambda>(k, v). (k, json_wire v)) = (fst :: string \<times> json \<Rightarrow> string)" by auto
  have "map fst (map (\<lambda>(k, v). (k, json_wire v)) (defined_members kvs)) = map fst (defined_members kvs)"
    by (simp add: f)
  moreover have "distinct (map fst (defined_members kvs))"
    using p by (simp add: plain_keys_def defined_members_def distinct_map_filter)
  ultimately show ?thesis using p by (auto simp: plain_keys_def defined_members_def f)
qed

lemma json_wire_plain:
  "plain_keys kvs \<Longrightarrow> json_wire (JObject kvs) = JObject (map (\<lambda>(k, v). (k, json_wire v)) (defined_members kvs))"
  using plain_keys_defined [of kvs] by (simp add: json_wire_JObject plain_keys_def obj_from_pairs_plain del: json_wire.simps)

lemma map_of_wire:
  "map_of kvs k = Some v \<Longrightarrow> v \<noteq> JUndefined \<Longrightarrow>
   map_of (map (\<lambda>(k, v). (k, json_wire v)) (defined_members kvs)) k = Some (json_wire v)"
  by (induction kvs) (auto simp: defined_members_def split: if_splits)

lemma key_index_alpha: "k \<noteq> [] \<Longrightarrow> \<not> is_digit (hd k) \<Longrightarrow> key_index k = None"
  by (cases k) (auto simp: key_index_def array_index_def)

lemma is_number_norm_num [simp]: "is_number (norm_num m e)"
  by (simp add: norm_num_def split: prod.splits)

lemma leg_shape_wire: "leg_shape (json_wire (leg_json l))"
proof -
  have p: "plain_keys [(''from'', leg_from l), (''to'', leg_to l), (''depart'', depart l), (''arrive'', arrive l),
              (''airline'', airline l), (''flightNo'', JString (flightNo l)), (''durationMin'', nat_num (durationMin l))]"
    by (simp add: plain_keys_def key_index_alpha is_digit_def)
  show ?thesis
    using json_wire_plain [OF p] by (simp add: leg_json_def leg_shape_def map_of_wire nat_num_def del: json_wire.simps(7))
qed


lemma jsnum_json_parseFloat: "jsnum_json (parseFloat v) \<noteq> None"
proof (cases "parseFloat v")
  case (Fin q)
  then obtain d x where "q = of_int d * pow10 x" using parseFloat_decimal by blast
  then have "rat_decimal q \<noteq> None" by (rule rat_decimal_exists)
  then show ?thesis using Fin by (auto simp: jsnum_json_def)
qed (simp_all add: jsnum_json_def)

lemma jsnum_json_cases: "jsnum_json x = Some p \<Longrightarrow> p = JNull \<or> is_number p"
  by (cases x) (auto simp: jsnum_json_def)

lemma option_shape_wire:
  assumes v: "option_json opt = Some v" and nts: "option_notes opt = []" and prov: "provider opt = ''AMADEUS''"
  shows "option_shape (json_wire v)"
proof -
  obtain p where jp: "jsnum_json (price opt) = Some p"
    and v': "v = JObject [(''id'', option_id opt), (''provider'', JString (provider opt)), (''price'', p),
                 (''currency'', currency opt), (''legs'', JArray (map leg_json (legs opt))),
                 (''totalDurationMin'', nat_num (totalDurationMin opt)),
                 (''transfers'', JNumber (transfers opt) 0), (''notes'', JArray (option_notes opt))]"
    using v by (auto simp: option_json_def)
  have pk: "plain_keys [(''id'', option_id opt), (''provider'', JString (provider opt)), (''price'', p),
                 (''currency'', currency opt), (''legs'', JArray (map leg_json (legs opt))),
                 (''totalDurationMin'', nat_num (totalDurationMin opt)),
                 (''transfers'', JNumber (transfers opt) 0), (''notes'', JArray (option_notes opt))]"
    by (simp add: plain_keys_def key_index_alpha is_digit_def)
  have pn: "p = JNull \<or> is_number p" using jsnum_json_cases [OF jp] .
  then have "p \<noteq> JUndefined" by auto
  moreover have "json_wire p = JNull \<or> is_number (json_wire p)" using pn by (cases p) auto
  moreover have "list_all leg_shape (map (json_wire \<circ> leg_json) (legs opt))"
    by (simp add: list_all_iff leg_shape_wire)
  ultimately show ?thesis
    using json_wire_plain [OF pk] v' nts prov
    by (simp add: option_shape_def map_of_wire nat_num_def del: json_wire.simps(7))
qed

text \<open>The client reads an option's \<open>price\<close> and \<open>id\<close> back as written.\<close>

lemma option_wire_get:
  assumes v: "option_json opt = Some v" and jp: "jsnum_json (price opt) = Some p"
  shows "get_opt (json_wire v) ''price'' = json_wire p"
    and "option_id opt \<noteq> JUndefined \<Longrightarrow> get_opt (json_wire v) ''id'' = json_wire (option_id opt)"
proof -
  have v': "v = JObject [(''id'', option_id opt), (''provider'', JString (provider opt)), (''price'', p),
                 (''currency'', currency opt), (''legs'', JArray (map leg_json (legs opt))),
                 (''totalDurationMin'', nat_num (totalDurationMin opt)),
                 (''transfers'', JNumber (transfers opt) 0), (''notes'', JArray (option_notes opt))]"
    using v jp by (simp add: option_json_def)
  have pk: "plain_keys [(''id'', option_id opt), (''provider'', JString (provider opt)), (''price'', p),
                 (''currency'', currency opt), (''legs'', JArray (map leg_json (legs opt))),
                 (''totalDurationMin'', nat_num (totalDurationMin opt)),
                 (''transfers'', JNumber (transfers opt) 0), (''notes'', JArray (option_notes opt))]"
    by (simp add: plain_keys_def key_index_alpha is_digit_def)
  have "p \<noteq> JUndefined" using jsnum_json_cases [OF jp] by auto
  then show "get_opt (json_wire v) ''price'' = json_wire p"
    using json_wire_plain [OF pk] v' by (simp add: get_opt_def map_of_wire del: json_wire.simps(7))
  show "option_id opt \<noteq> JUndefined \<Longrightarrow> get_opt (json_wire v) ''id'' = json_wire (option_id opt)"
    using json_wire_plain [OF pk] v' by (simp add: get_opt_def map_of_wire del: json_wire.simps(7))
qed

lemma options_json:
  "\<forall>opt \<in> set os. option_notes opt = [] \<and> provider opt = ''AMADEUS'' \<and> (\<exists>v. price opt = parseFloat v) \<Longrightarrow>
   \<exists>js. those (map option_json os) = Some js \<and> list_all option_shape (map json_wire js)"
proof (induction os)
  case Nil
  then show ?case by simp
next
  case (Cons opt os)
  then obtain js where js: "those (map option_json os) = Some js" "list_all option_shape (map json_wire js)" by auto
  obtain v0 where "price opt = parseFloat v0" using Cons.prems by auto
  then obtain p where "jsnum_json (price opt) = Some p" using jsnum_json_parseFloat by fastforce
  then obtain v where v: "option_json opt = Some v" by (simp add: option_json_def)
  have "option_shape (json_wire v)" using option_shape_wire [OF v] Cons.prems by simp
  then show ?case using js v by simp
qed


lemma wire_object: "\<exists>t. json_text (JObject kvs) = Some t \<and> json_parse t = Some (json_wire (JObject kvs))"
  using json_parse_elem_text [of "JObject kvs"] by (simp add: elem_text_def)

lemma wire_error:
  assumes "s = 400 \<or> s = 500"
  shows "\<exists>t v. res_json (Reply s (BodyError (JString m))) = Some (s, t) \<and> json_parse t = Some v \<and> reply_shape s v"
proof -
  have pk: "plain_keys [(''ok'', JBool False), (''error'', JString m)]"
    by (simp add: plain_keys_def key_index_alpha is_digit_def)
  obtain t where t: "json_text (JObject [(''ok'', JBool False), (''error'', JString m)]) = Some t"
    and p: "json_parse t = Some (json_wire (JObject [(''ok'', JBool False), (''error'', JString m)]))"
    using wire_object by blast
  have "reply_shape s (json_wire (JObject [(''ok'', JBool False), (''error'', JString m)]))"
    using json_wire_plain [OF pk] assms by (auto simp: reply_shape_def defined_members_def simp del: json_wire.simps(7))
  then show ?thesis using t p by (auto simp: res_json_def)
qed

text \<open>The body of an options reply, as the client parses it.\<close>

lemma options_reply_parse:
  assumes "those (map option_json os) = Some js"
  shows "\<exists>t. res_json (Reply s (BodyOptions os)) = Some (s, t) \<and>
           json_parse t = Some (JObject [(''ok'', JBool True), (''options'', JArray (map json_wire js))])"
proof -
  have pk: "plain_keys [(''ok'', JBool True), (''options'', JArray js)]"
    by (simp add: plain_keys_def key_index_alpha is_digit_def)
  obtain t where t: "json_text (JObject [(''ok'', JBool True), (''options'', JArray js)]) = Some t"
    and p: "json_parse t = Some (json_wire (JObject [(''ok'', JBool True), (''options'', JArray js)]))"
    using wire_object by blast
  have "json_wire (JObject [(''ok'', JBool True), (''options'', JArray js)]) =
          JObject [(''ok'', JBool True), (''options'', JArray (map json_wire js))]"
    using json_wire_plain [OF pk] by (simp add: defined_members_def del: json_wire.simps(7))
  then show ?thesis using t p assms by (auto simp: res_json_def)
qed

lemma wire_options:
  assumes "\<forall>opt \<in> set os. option_notes opt = [] \<and> provider opt = ''AMADEUS'' \<and> (\<exists>v. price opt = parseFloat v)"
  shows "\<exists>t v. res_json (Reply 200 (BodyOptions os)) = Some (200, t) \<and> json_parse t = Some v \<and> reply_shape 200 v"
proof -
  obtain js where js: "those (map option_json os) = Some js" and sh: "list_all option_shape (map json_wire js)"
    using options_json [OF assms] by blast
  then show ?thesis using options_reply_parse [OF js, of 200] by (auto simp: reply_shape_def)
qed

lemma set_rank_options: "set (rank_options optimize xs) = set xs"
proof -
  obtain f where "balanced_scores xs = map (\<lambda>m. (m, f m)) xs" using balanced_scores_shape by blast
  then have "mset (rank_options optimize xs) = mset xs"
    by (simp add: rank_options_def Let_def mset_js_sort multiset.map_comp comp_def)
  then show ?thesis by (metis set_mset_mset)
qed

lemma map_offers_fields_all:
  assumes "map_offers data = Inr opts"
  shows "\<forall>opt \<in> set opts. option_notes opt = [] \<and> provider opt = ''AMADEUS'' \<and> (\<exists>v. price opt = parseFloat v)"
proof
  fix opt assume "opt \<in> set opts"
  then obtain k where k: "k < length opts" "opt = opts ! k" by (auto simp: in_set_conv_nth)
  from assms have "length opts = length data" unfolding map_offers_def by (rule emap_from_Inr_length)
  with assms k have "map_offer k (data ! k) = Inr opt"
    using emap_from_Inr_nth [of 0 map_offer data opts k] by (simp add: map_offers_def)
  then show "option_notes opt = [] \<and> provider opt = ''AMADEUS'' \<and> (\<exists>v. price opt = parseFloat v)"
    using map_offer_fields by blast
qed

lemma searchAmadeus_Inr:
  "searchAmadeus cfg fmt up q = (rs, Inr opts) \<Longrightarrow>
   \<exists>opt data mapped. map_offers data = Inr mapped \<and> opts = rank_options opt mapped"
  by (auto simp: searchAmadeus_cases ebind_eq_Inr_iff split: sum.splits)

lemma handle_search_replies:
  "snd (handle_search cfg fmt up body) = Reply 400 (BodyError required_msg) \<or>
   (\<exists>e. snd (handle_search cfg fmt up body) = error_reply e) \<or>
   (\<exists>opt data mapped. map_offers data = Inr mapped \<and>
      snd (handle_search cfg fmt up body) = Reply 200 (BodyOptions (rank_options opt mapped)))"
  by (auto simp: handle_search_query Let_def dest: searchAmadeus_Inr split: prod.splits sum.splits)

section \<open>Every reply reaches the client in shape\<close>

text \<open>C30. Every reply of \<open>POST /api/search\<close>, whatever the body, the upstream and the date formatter, is serialized by \<open>res.json\<close>, and the client's \<open>JSON.parse\<close> of it is \<open>{ok: true, options}\<close> with status 200 and options of the documented shape (price a number or \<open>null\<close>), or \<open>{ok: false, error}\<close> with a string error and status 400 or 500.\<close>

theorem handle_search_wire:
  "\<exists>s t v. res_json (snd (handle_search cfg fmt up body)) = Some (s, t) \<and> json_parse t = Some v \<and> reply_shape s v"
proof -
  consider (bad) "snd (handle_search cfg fmt up body) = Reply 400 (BodyError required_msg)"
    | (err) e where "snd (handle_search cfg fmt up body) = error_reply e"
    | (ok) opt data mapped where "map_offers data = Inr mapped"
        "snd (handle_search cfg fmt up body) = Reply 200 (BodyOptions (rank_options opt mapped))"
    using handle_search_replies by blast
  then show ?thesis
  proof cases
    case bad
    obtain t v where "res_json (Reply 400 (BodyError required_msg)) = Some (400, t)" "json_parse t = Some v" "reply_shape 400 v"
      using wire_error [of 400 "''from, to, start are required''"] by (auto simp: required_msg_def)
    with bad show ?thesis by auto
  next
    case err
    obtain m where "js_or (JString (error_message e)) (JString ''Server error'') = JString m"
      by (cases "error_message e = []") (auto simp: js_or_def)
    then obtain t v where "res_json (error_reply e) = Some (500, t)" "json_parse t = Some v" "reply_shape 500 v"
      using wire_error [of 500 m] by (auto simp: error_reply_def)
    with err show ?thesis by auto
  next
    case ok
    obtain t v where "res_json (Reply 200 (BodyOptions (rank_options opt mapped))) = Some (200, t)"
        "json_parse t = Some v" "reply_shape 200 v"
      using wire_options [of "rank_options opt mapped"] map_offers_fields_all [OF ok(1)] by (auto simp: set_rank_options)
    with ok show ?thesis by auto
  qed
qed

section \<open>Examples\<close>

theorem handle_search_wire_witness:
  "\<exists>s t v. res_json (snd (handle_search example_cfg example_fmt (example_upstream example_token (JObject []))
      (example_query ''cheapest''))) = Some (s, t) \<and> json_parse t = Some v \<and> reply_shape s v"
  by (rule handle_search_wire)


text \<open>An option whose price is NaN (a total that is not numeric) reaches the client with \<open>price: null\<close>.\<close>

theorem res_json_NaN_price:
  "res_json (Reply 200 (BodyOptions [example_option NaN 300])) =
     map_option (\<lambda>t. (200, t)) (json_text (JObject [(''ok'', JBool True), (''options'', JArray
       [JObject [(''id'', JNull), (''provider'', JString ''AMADEUS''), (''price'', JNull), (''currency'', JString ''USD''),
                 (''legs'', JArray []), (''totalDurationMin'', JNumber 300 0), (''transfers'', JNumber 0 0),
                 (''notes'', JArray [])]])]))"
  by (simp add: res_json_def option_json_def jsnum_json_def example_option_def nat_num_def)

end
