(* ===== verification/Ky.thy ===== *)
theory Ky
  imports Pipeline JsonText
begin

text \<open>
  The HTTP client.  \<open>ky.post(...).json()\<close> (lines 116-123) and
  \<open>ky.get(...).json()\<close> (lines 142-145) send a request, throw an \<open>HTTPError\<close> when
  the response status is not 2xx (ky's \<open>throwHttpErrors\<close>, on by default), and
  otherwise parse the body with \<open>JSON.parse\<close>; an empty body or status 204 gives
  the empty string.  The network itself is a parameter: the response it gives to a
  request, or the exception of a failed transport.  \<open>ky_json net\<close> is then an
  upstream of the pipeline, so every theorem of \<open>Pipeline\<close> holds of it.  The
  retries ky makes by default are the second part: a wire network answers each attempt,
  and \<open>search_wire\<close> lists the requests of a search as they are sent.
\<close>

record http_response =
  resp_status :: nat
  resp_body :: string

type_synonym network = "request \<Rightarrow> js_error + http_response"

text \<open>
  ky's message starts with the status code; the status text, method and URL that
  later versions append are not modelled.  V8's message for a body that is not JSON
  names the offending token; the model keeps its first words.
\<close>

definition ky_http_error :: "nat \<Rightarrow> js_error" where
  "ky_http_error s = Error (''Request failed with status code '' @ nat_digits s)"

definition json_syntax_error :: js_error where
  "json_syntax_error = SyntaxError ''Unexpected token in JSON''"

definition ky_json :: "network \<Rightarrow> upstream" where
  "ky_json net r =
     ebind (net r) (\<lambda>resp.
       if 200 \<le> resp_status resp \<and> resp_status resp < 300 then
         (if resp_status resp = 204 \<or> resp_body resp = [] then Inr (JString [])
          else (case json_parse (resp_body resp) of
                  Some v \<Rightarrow> Inr v
                | None \<Rightarrow> Inl json_syntax_error))
       else Inl (ky_http_error (resp_status resp)))"

section \<open>Retries\<close>

text \<open>
  ky's default \<open>retry\<close> option: a GET (not a POST) whose attempt ends in a network
  error or in one of the statuses 408, 429, 500, 502, 503, 504 is sent again, at most
  twice (\<open>limit: 2\<close>); 413 is retried only when the response carries
  \<open>Retry-After\<close>, and the model's responses carry no headers.  The network of the
  wire answers each attempt of a request, so a retry may get a different answer; the
  delays between attempts are not modelled, and every transport exception counts as a
  network error (ky's own timeout is not modelled).
\<close>

type_synonym wire_network = "request \<Rightarrow> nat \<Rightarrow> js_error + http_response"

definition ky_retryable :: "js_error + http_response \<Rightarrow> bool" where
  "ky_retryable a =
     (case a of
        Inl e \<Rightarrow> True
      | Inr resp \<Rightarrow> resp_status resp \<in> {408, 429, 500, 502, 503, 504})"

text \<open>Attempts from number \<open>k\<close> with \<open>l\<close> retries left: the number of attempts made
  and the answer of the last one.\<close>

fun ky_retry :: "nat \<Rightarrow> (nat \<Rightarrow> js_error + http_response) \<Rightarrow> nat \<Rightarrow> nat \<times> (js_error + http_response)" where
  "ky_retry 0 ans k = (Suc k, ans k)"
| "ky_retry (Suc l) ans k = (if ky_retryable (ans k) then ky_retry l ans (Suc k) else (Suc k, ans k))"

definition ky_attempts :: "wire_network \<Rightarrow> request \<Rightarrow> nat \<times> (js_error + http_response)" where
  "ky_attempts net r = (case r of TokenPost b \<Rightarrow> (1, net r 0) | OffersGet u a \<Rightarrow> ky_retry 2 (net r) 0)"

text \<open>\<open>.json()\<close> on the answer of the last attempt.\<close>

definition ky_send :: "wire_network \<Rightarrow> upstream" where
  "ky_send net = ky_json (\<lambda>r. snd (ky_attempts net r))"

text \<open>The search with the requests as they go over the wire: each call of ky stands for
  its attempts.\<close>

definition search_wire :: "config \<Rightarrow> date_format \<Rightarrow> wire_network \<Rightarrow> json \<Rightarrow> request list \<times> (js_error + flight_option list)" where
  "search_wire cfg fmt net q =
     (case searchAmadeus cfg fmt (ky_send net) q of
        (rs, res) \<Rightarrow> (concat (map (\<lambda>r. replicate (fst (ky_attempts net r)) r) rs), res))"

section \<open>Example networks\<close>

text \<open>A network that grants the token and answers the search with status 400 and an \<open>errors\<close> list.\<close>

definition example_error_body :: json where
  "example_error_body = JObject [(''errors'', JArray [JObject [(''detail'', JString ''INVALID DATE'')]])]"

definition example_net :: network where
  "example_net r =
     (case r of
        TokenPost b \<Rightarrow> Inr \<lparr>resp_status = 200, resp_body = the (json_text example_token)\<rparr>
      | OffersGet u a \<Rightarrow> Inr \<lparr>resp_status = 400, resp_body = the (json_text example_error_body)\<rparr>)"

text \<open>A network that answers the token request and the search with status 200 and the
  JSON texts of \<open>tok\<close> and \<open>res\<close>.\<close>

definition ky_net :: "json \<Rightarrow> json \<Rightarrow> network" where
  "ky_net tok res r =
     (case r of
        TokenPost b \<Rightarrow> Inr \<lparr>resp_status = 200, resp_body = elem_text tok\<rparr>
      | OffersGet u a \<Rightarrow> Inr \<lparr>resp_status = 200, resp_body = elem_text res\<rparr>)"

text \<open>A wire network that grants the token and answers the first attempt of the search
  with 503 and every later attempt with 200 and the text of \<open>res\<close>.\<close>

definition flaky_net :: "json \<Rightarrow> wire_network" where
  "flaky_net res r k =
     (case r of
        TokenPost b \<Rightarrow> Inr \<lparr>resp_status = 200, resp_body = elem_text example_token\<rparr>
      | OffersGet u a \<Rightarrow>
          if k = 0 then Inr \<lparr>resp_status = 503, resp_body = []\<rparr>
          else Inr \<lparr>resp_status = 200, resp_body = elem_text res\<rparr>)"

section \<open>Lemmas\<close>

lemma ky_json_error_status:
  "net r = Inr resp \<Longrightarrow> \<not> (200 \<le> resp_status resp \<and> resp_status resp < 300) \<Longrightarrow>
   ky_json net r = Inl (ky_http_error (resp_status resp))"
  by (auto simp: ky_json_def)

lemma ky_json_text:
  "net r = Inr resp \<Longrightarrow> 200 \<le> resp_status resp \<Longrightarrow> resp_status resp < 300 \<Longrightarrow> resp_status resp \<noteq> 204 \<Longrightarrow>
   json_text v = Some (resp_body resp) \<Longrightarrow> ky_json net r = Inr (json_wire v)"
proof -
  assume a: "net r = Inr resp" "200 \<le> resp_status resp" "resp_status resp < 300" "resp_status resp \<noteq> 204"
    and t: "json_text v = Some (resp_body resp)"
  have p: "json_parse (resp_body resp) = Some (json_wire v)"
    using t json_parse_elem_text [of v] by (simp add: elem_text_def)
  have "json_parse [] = None" by (simp add: json_parse_def)
  then have "resp_body resp \<noteq> []" using p by auto
  then show ?thesis using a p by (simp add: ky_json_def)
qed

lemma elem_text_ne: "elem_text v \<noteq> []"
  using json_parse_elem_text [of v] by (auto simp: json_parse_def)

lemma example_token_wire: "json_wire example_token = example_token"
  unfolding example_token_def by code_simp

text \<open>Over a network that answers with the texts of two values, ky delivers the values as a
  client reads them back.\<close>

lemma ky_net_upstream: "ky_json (ky_net tok res) = example_upstream (json_wire tok) (json_wire res)"
proof
  fix r
  show "ky_json (ky_net tok res) r = example_upstream (json_wire tok) (json_wire res) r"
    using json_parse_elem_text elem_text_ne by (cases r) (simp_all add: ky_json_def ky_net_def example_upstream_def)
qed


text \<open>ky makes one attempt more than the run of retryable answers, within its limit.\<close>

lemma ky_retry_run:
  "ky_retry l ans k =
     (let n = length (takeWhile (\<lambda>i. ky_retryable (ans i)) [k..<k + l]) in (k + Suc n, ans (k + n)))"
proof (induction l arbitrary: k)
  case 0
  then show ?case by simp
next
  case (Suc l)
  have u: "[k..<k + Suc l] = k # [Suc k..<Suc k + l]" by (simp add: upt_conv_Cons)
  show ?case
  proof (cases "ky_retryable (ans k)")
    case True
    then show ?thesis using Suc.IH [of "Suc k"] u by (simp add: Let_def)
  next
    case False
    then show ?thesis using u by simp
  qed
qed

lemma ky_retry_constant: "snd (ky_retry l (\<lambda>i. a) k) = a"
  by (induction l arbitrary: k) simp_all

text \<open>On a network that gives every attempt the same answer, the retries change nothing
  but the number of requests: \<open>ky_send\<close> is \<open>ky_json\<close>.\<close>

lemma ky_send_constant: "ky_send (\<lambda>r i. net r) = ky_json net"
proof -
  have "snd (ky_attempts (\<lambda>r i. net r) r) = net r" for r
    by (cases r) (simp_all add: ky_attempts_def ky_retry_constant)
  then show ?thesis by (simp add: ky_send_def)
qed

text \<open>C12. Over the wire, a search sends the token POST once, never retried, and then, exactly when the token call succeeded and the query parameters were built, the offer search GET: once, and once more for each consecutive attempt answered by a network error or by a status 408, 429, 500, 502, 503 or 504 (ky's default retry), at most three times in all.\<close>

theorem search_wire_requests:
  "fst (search_wire cfg fmt net q) =
     TokenPost (form_urlencode (token_form cfg)) #
     (case (snd (getAccessToken cfg (ky_send net)), search_params fmt q) of
        (Inr token, Inr ps) \<Rightarrow>
          replicate (Suc (length (takeWhile (\<lambda>i. ky_retryable (net (offers_request ps token) i)) [0..<2])))
            (offers_request ps token)
      | _ \<Rightarrow> [])"
proof -
  have post: "fst (ky_attempts net (TokenPost b)) = 1" for b by (simp add: ky_attempts_def)
  have get: "fst (ky_attempts net (offers_request ps t)) =
               Suc (length (takeWhile (\<lambda>i. ky_retryable (net (offers_request ps t) i)) [0..<2]))" for ps t
    by (simp only: ky_attempts_def offers_request_def request.case ky_retry_run Let_def fst_conv add_0)
  show ?thesis
    by (simp add: search_wire_def searchAmadeus_cases post get split: sum.splits)
qed


text \<open>C38. An error status of the offer search: when the search request is answered with a status outside 200-299, ky throws its \<open>HTTPError\<close> before the body is read, so \<open>searchAmadeus\<close> fails with the message of the status alone, whatever the body holds; the \<open>errors\<close> list of an error response never reaches the check of lines 147-150.\<close>

theorem searchAmadeus_http_error:
  assumes "snd (getAccessToken cfg (ky_json net)) = Inr token" and "search_params fmt q = Inr ps"
    and "net (offers_request ps token) = Inr resp"
    and "\<not> (200 \<le> resp_status resp \<and> resp_status resp < 300)"
  shows "snd (searchAmadeus cfg fmt (ky_json net) q) = Inl (ky_http_error (resp_status resp))"
  using assms by (simp add: searchAmadeus_cases ky_json_error_status)


section \<open>Examples\<close>

theorem searchAmadeus_http_error_witness:
  "\<exists>ps. snd (getAccessToken example_cfg (ky_json example_net)) = Inr (JString ''tok'') \<and>
     search_params example_fmt (example_query ''cheapest'') = Inr ps \<and>
     example_net (offers_request ps (JString ''tok'')) = Inr \<lparr>resp_status = 400, resp_body = the (json_text example_error_body)\<rparr> \<and>
     \<not> (200 \<le> (400::nat) \<and> (400::nat) < 300) \<and>
     snd (searchAmadeus example_cfg example_fmt (ky_json example_net) (example_query ''cheapest'')) = Inl (ky_http_error 400)"
proof -
  obtain ps where ps: "search_params example_fmt (example_query ''cheapest'') = Inr ps"
    by (simp add: pipeline_example_simps)
  have tokr: "ky_json example_net (TokenPost (form_urlencode (token_form example_cfg))) = Inr (json_wire example_token)"
    by (rule ky_json_text [where resp = "\<lparr>resp_status = 200, resp_body = the (json_text example_token)\<rparr>"])
       (simp_all add: example_net_def example_token_def)
  have tok: "snd (getAccessToken example_cfg (ky_json example_net)) = Inr (JString ''tok'')"
    using tokr example_token_wire by (simp add: getAccessToken_def example_token_def)
  have net: "example_net (offers_request ps (JString ''tok'')) = Inr \<lparr>resp_status = 400, resp_body = the (json_text example_error_body)\<rparr>"
    by (simp add: example_net_def offers_request_def)
  have "snd (searchAmadeus example_cfg example_fmt (ky_json example_net) (example_query ''cheapest'')) = Inl (ky_http_error 400)"
    using searchAmadeus_http_error [OF tok ps net] by simp
  then show ?thesis using tok ps net by auto
qed

theorem search_wire_requests_example:
  "\<exists>g. fst (search_wire example_cfg example_fmt (flaky_net (JObject [])) (example_query ''cheapest'')) =
     [TokenPost (form_urlencode (token_form example_cfg)), g, g]"
proof -
  obtain ps where ps: "search_params example_fmt (example_query ''cheapest'') = Inr ps"
    by (simp add: pipeline_example_simps)
  have "ky_send (flaky_net (JObject [])) (TokenPost (form_urlencode (token_form example_cfg))) = Inr (json_wire example_token)"
    using json_parse_elem_text [of example_token] elem_text_ne [of example_token]
    by (simp add: ky_send_def ky_json_def ky_attempts_def flaky_net_def json_parse_def split: option.splits) 
  then have tok: "snd (getAccessToken example_cfg (ky_send (flaky_net (JObject [])))) = Inr (JString ''tok'')"
    using example_token_wire by (simp add: getAccessToken_def example_token_def)
  have "takeWhile (\<lambda>i. ky_retryable (flaky_net (JObject []) (offers_request ps (JString ''tok'')) i)) [0..<2] = [0]"
    by (simp add: flaky_net_def offers_request_def ky_retryable_def upt_conv_Cons)
  then show ?thesis using search_wire_requests [of example_cfg example_fmt "flaky_net (JObject [])" "example_query ''cheapest''"] tok ps
    by simp
qed


end
