(* ===== verification/Calendar.thy ===== *)
theory Calendar
  imports Prelude
begin

text \<open>
  The proleptic Gregorian calendar of ECMAScript (ECMA-262, section 21.4.1) on day
  numbers: day 0 is 1970-01-01.  \<open>day_from_year\<close> is DayFromYear;
  \<open>year_from_day\<close> is YearFromTime (the largest year that starts on or before the
  day), found by a search upward from a lower bound; \<open>month_of\<close> is MonthFromTime on
  the day within the year; \<open>make_day\<close> is MakeDay and \<open>date_of_day\<close> gives
  YearFromTime, MonthFromTime and DateFromTime of a day.  Months are numbered from 0
  as in the standard.  The lemmas show that the year search terminates and finds the
  year of the standard, and that \<open>make_day\<close> and \<open>date_of_day\<close> are inverse
  bijections between valid dates and day numbers.
\<close>

section \<open>Years\<close>

definition days_in_year :: "int \<Rightarrow> int" where
  "days_in_year y =
     (if y mod 4 \<noteq> 0 then 365 else if y mod 100 \<noteq> 0 then 366 else if y mod 400 \<noteq> 0 then 365 else 366)"

definition is_leap :: "int \<Rightarrow> bool" where
  "is_leap y \<longleftrightarrow> days_in_year y = 366"

definition day_from_year :: "int \<Rightarrow> int" where
  "day_from_year y = 365 * (y - 1970) + (y - 1969) div 4 - (y - 1901) div 100 + (y - 1601) div 400"

text \<open>A year that starts on or before day \<open>d\<close>: a year has at most 366 and at least 365 days.\<close>

definition year_lower :: "int \<Rightarrow> int" where
  "year_lower d = 1970 + (if 0 \<le> d then d div 366 else d div 365)"

section \<open>Months\<close>

text \<open>The first day of month \<open>m\<close> (from 0) within its year, and the month's length.\<close>

definition month_start :: "bool \<Rightarrow> nat \<Rightarrow> int" where
  "month_start leap m =
     [0, 31, 59, 90, 120, 151, 181, 212, 243, 273, 304, 334] ! m + (if leap \<and> 2 \<le> m then 1 else 0)"

definition month_days :: "bool \<Rightarrow> nat \<Rightarrow> int" where
  "month_days leap m =
     (if m = 1 then (if leap then 29 else 28) else if m \<in> {3, 5, 8, 10} then 30 else 31)"

text \<open>
  MonthFromTime, on the day within the year: the month whose range of days contains
  it, that is, the number of months after January that start on or before it.
\<close>

definition month_of :: "bool \<Rightarrow> int \<Rightarrow> nat" where
  "month_of leap doy = length (takeWhile (\<lambda>k. month_start leap k \<le> doy) [1..<12])"

section \<open>Days, dates and validity\<close>

definition make_day :: "int \<Rightarrow> int \<Rightarrow> int \<Rightarrow> int" where
  "make_day y m dt =
     (let ym = y + m div 12; mn = nat (m mod 12)
      in day_from_year ym + month_start (is_leap ym) mn + dt - 1)"

definition valid_date :: "int \<Rightarrow> nat \<Rightarrow> int \<Rightarrow> bool" where
  "valid_date y m dt \<longleftrightarrow> m < 12 \<and> 1 \<le> dt \<and> dt \<le> month_days (is_leap y) m"

section \<open>Lemmas on years\<close>

lemma div_succ_int:
  fixes a n :: int
  assumes "1 < n"
  shows "(a + 1) div n = a div n + (if a mod n = n - 1 then 1 else 0)"
proof -
  have "(a + 1) div n = a div n + 1 div n + (a mod n + 1 mod n) div n" by (rule div_add1_eq)
  moreover have "1 div n = 0" "1 mod n = 1" using assms by simp_all
  moreover have "(a mod n + 1) div n = (if a mod n = n - 1 then 1 else 0)"
  proof -
    have "0 \<le> a mod n" "a mod n < n" using assms by simp_all
    then show ?thesis by (auto simp: div_pos_pos_trivial)
  qed
  ultimately show ?thesis by simp
qed

lemma mod_pred_iff:
  fixes a n :: int
  assumes "1 < n"
  shows "(a + (n - 1)) mod n = n - 1 \<longleftrightarrow> a mod n = 0"
proof -
  have r: "0 \<le> a mod n" "a mod n < n" using assms by simp_all
  have "(a + (n - 1)) mod n = (a mod n + (n - 1)) mod n" by (simp add: mod_add_left_eq)
  also have "\<dots> = (if a mod n = 0 then n - 1 else a mod n - 1)"
  proof (cases "a mod n = 0")
    case True
    have "(n - 1) mod n = n - 1" using assms by (intro mod_pos_pos_trivial) simp_all
    with True show ?thesis by simp
  next
    case False
    have e: "a mod n + (n - 1) = (a mod n - 1) + 1 * n" by simp
    have "(a mod n - 1) mod n = a mod n - 1" using r False by (simp add: mod_pos_pos_trivial)
    then have "(a mod n + (n - 1)) mod n = a mod n - 1" unfolding e by (simp only: mod_mult_self1)
    then show ?thesis using False by simp
  qed
  finally show ?thesis using r by auto
qed

lemma shift_mod: "(y - 1969) mod 4 = (y + (4 - 1)) mod (4::int)"
  "(y - 1901) mod 100 = (y + (100 - 1)) mod (100::int)"
  "(y - 1601) mod 400 = (y + (400 - 1)) mod (400::int)"
proof -
  have "y - 1969 = (y + (4 - 1)) + (-493) * 4" "y - 1901 = (y + (100 - 1)) + (-20) * 100"
       "y - 1601 = (y + (400 - 1)) + (-5) * 400" by simp_all
  then show "(y - 1969) mod 4 = (y + (4 - 1)) mod (4::int)"
    "(y - 1901) mod 100 = (y + (100 - 1)) mod (100::int)"
    "(y - 1601) mod 400 = (y + (400 - 1)) mod (400::int)"
    by (metis mod_mult_self1)+
qed

lemma div_step:
  fixes y c n :: int
  assumes "1 < n" and "(y - c) mod n = (y + (n - 1)) mod n"
  shows "(y + 1 - c) div n = (y - c) div n + (if y mod n = 0 then 1 else 0)"
proof -
  have "(y + 1 - c) div n = ((y - c) + 1) div n" by (simp add: algebra_simps)
  also have "\<dots> = (y - c) div n + (if (y - c) mod n = n - 1 then 1 else 0)"
    by (rule div_succ_int [OF assms(1)])
  finally show ?thesis using assms mod_pred_iff [OF assms(1), of y] by simp
qed

lemma day_from_year_succ: "day_from_year (y + 1) = day_from_year y + days_in_year y"
proof -
  have a: "(y + 1 - 1969) div 4 = (y - 1969) div 4 + (if y mod 4 = 0 then 1 else 0)"
    by (rule div_step [OF _ shift_mod(1)]) simp
  have b: "(y + 1 - 1901) div 100 = (y - 1901) div 100 + (if y mod 100 = 0 then 1 else 0)"
    by (rule div_step [OF _ shift_mod(2)]) simp
  have c: "(y + 1 - 1601) div 400 = (y - 1601) div 400 + (if y mod 400 = 0 then 1 else 0)"
    by (rule div_step [OF _ shift_mod(3)]) simp
  have "y mod 100 = 0 \<Longrightarrow> y mod 4 = 0" "y mod 400 = 0 \<Longrightarrow> y mod 100 = 0" by presburger+
  then show ?thesis
    unfolding day_from_year_def days_in_year_def by (simp only: a b c) (auto simp: algebra_simps)
qed

lemma month_start_Suc: "m < 11 \<Longrightarrow> month_start leap (Suc m) = month_start leap m + month_days leap m"
proof -
  assume "m < 11"
  then have "m \<in> {0, 1, 2, 3, 4, 5, 6, 7, 8, 9, 10}" by simp presburger
  then show ?thesis by (cases leap) (auto simp: month_start_def month_days_def)
qed

lemma month_days_pos: "0 < month_days leap m"
  by (simp add: month_days_def)

lemma month_start_mono: "k < m \<Longrightarrow> m < 12 \<Longrightarrow> month_start leap k < month_start leap m"
proof (induction m)
  case 0
  then show ?case by simp
next
  case (Suc m)
  then have "month_start leap (Suc m) = month_start leap m + month_days leap m" by (simp add: month_start_Suc)
  moreover have "k = m \<or> k < m" using Suc.prems by auto
  ultimately show ?case using Suc month_days_pos [of leap m] by fastforce
qed

lemma month_start_le: "k \<le> m \<Longrightarrow> m < 12 \<Longrightarrow> month_start leap k \<le> month_start leap m"
  using month_start_mono [of k m leap] by (cases "k = m") auto

lemma month_of_start:
  assumes "m < 12" and "0 \<le> k" and "k < month_days leap m"
  shows "month_of leap (month_start leap m + k) = m"
proof -
  let ?P = "\<lambda>j. month_start leap j \<le> month_start leap m + k"
  have split: "[1..<12] = [1..<Suc m] @ [Suc m..<12]"
    using assms(1) upt_add_eq_append [of 1 "Suc m" "12 - Suc m"] by simp
  have pre: "\<forall>j \<in> set [1..<Suc m]. ?P j"
    using assms(1,2) month_start_le [of _ m leap] by fastforce
  have post: "takeWhile ?P [Suc m..<12] = []"
  proof (cases "m < 11")
    case True
    then have "month_start leap (Suc m) = month_start leap m + month_days leap m" by (rule month_start_Suc)
    then have "\<not> ?P (Suc m)" using assms(3) by simp
    moreover have "[Suc m..<12] = Suc m # [Suc (Suc m)..<12]" using True by (simp add: upt_conv_Cons)
    ultimately show ?thesis by simp
  next
    case False
    then show ?thesis by simp
  qed
  have "takeWhile ?P ([1..<Suc m] @ [Suc m..<12]) = [1..<Suc m] @ takeWhile ?P [Suc m..<12]"
    by (rule takeWhile_append2) (use pre in blast)
  then have "takeWhile ?P [1..<12] = [1..<Suc m]" unfolding split post by simp
  then show ?thesis by (simp add: month_of_def)
qed

lemma takeWhile_nth_P: "j < length (takeWhile P xs) \<Longrightarrow> P (xs ! j)"
proof -
  assume j: "j < length (takeWhile P xs)"
  then have "takeWhile P xs ! j \<in> set (takeWhile P xs)" by (rule nth_mem)
  then have "P (takeWhile P xs ! j)" by (rule set_takeWhileD [THEN conjunct2])
  with j show ?thesis by (simp add: takeWhile_nth)
qed

lemma month_of_bounds:
  assumes "0 \<le> x" and "x < month_start leap 11 + 31"
  shows "month_of leap x < 12 \<and> month_start leap (month_of leap x) \<le> x \<and>
         x < month_start leap (month_of leap x) + month_days leap (month_of leap x)"
proof -
  let ?P = "\<lambda>j. month_start leap j \<le> x"
  let ?c = "month_of leap x"
  have len: "?c \<le> 11" unfolding month_of_def using length_takeWhile_le [of ?P "[1..<12]"] by simp
  have lo: "month_start leap ?c \<le> x"
  proof (cases "?c = 0")
    case True
    then show ?thesis using assms(1) by (simp add: month_start_def)
  next
    case False
    then have "?c - 1 < length (takeWhile ?P [1..<12])" by (simp add: month_of_def)
    then have "?P ([1..<12] ! (?c - 1))" by (rule takeWhile_nth_P)
    with False len show ?thesis by simp
  qed
  have hi: "x < month_start leap ?c + month_days leap ?c"
  proof (cases "?c = 11")
    case True
    then show ?thesis using assms(2) by (simp add: month_days_def)
  next
    case False
    then have c: "?c < 11" using len by simp
    have "?c < length [1..<12]" using c by simp
    then have "\<not> ?P ([1..<12] ! ?c)"
      unfolding month_of_def by (rule nth_length_takeWhile)
    then have "x < month_start leap (Suc ?c)" using c by simp
    with c show ?thesis by (simp add: month_start_Suc)
  qed
  from len lo hi show ?thesis by simp
qed

lemma days_in_year_bounds: "365 \<le> days_in_year y" "days_in_year y \<le> 366"
  by (simp_all add: days_in_year_def)

lemma day_from_year_less_succ: "day_from_year y < day_from_year (y + 1)"
  using days_in_year_bounds(1) [of y] by (simp add: day_from_year_succ)

function year_search :: "int \<Rightarrow> int \<Rightarrow> int" where
  "year_search d y = (if day_from_year (y + 1) \<le> d then year_search d (y + 1) else y)"
  by pat_completeness auto
termination
  by (relation "measure (\<lambda>(d, y). nat (d - day_from_year y))") (auto intro: order.strict_trans2 [OF day_from_year_less_succ])

declare year_search.simps [simp del]

definition year_from_day :: "int \<Rightarrow> int" where
  "year_from_day d = year_search d (year_lower d)"

definition date_of_day :: "int \<Rightarrow> int \<times> nat \<times> int" where
  "date_of_day d =
     (let y = year_from_day d; doy = d - day_from_year y; leap = is_leap y; m = month_of leap doy
      in (y, m, doy - month_start leap m + 1))"

lemma day_from_year_mono: "y < y' \<Longrightarrow> day_from_year y < day_from_year y'"
proof (induction y' rule: int_gr_induct)
  case base
  then show ?case by (rule day_from_year_less_succ)
next
  case (step i)
  then show ?case using day_from_year_less_succ [of i] by simp
qed

lemma day_from_year_upper: "0 \<le> k \<Longrightarrow> day_from_year (1970 + k) \<le> 366 * k"
proof (induction k rule: int_ge_induct)
  case base
  then show ?case by (simp add: day_from_year_def)
next
  case (step i)
  then show ?case using day_from_year_succ [of "1970 + i"] days_in_year_bounds(2) [of "1970 + i"]
    by (simp add: algebra_simps)
qed

lemma day_from_year_upper_neg: "k \<le> 0 \<Longrightarrow> day_from_year (1970 + k) \<le> 365 * k"
proof (induction k rule: int_le_induct)
  case base
  then show ?case by (simp add: day_from_year_def)
next
  case (step i)
  have "day_from_year (1970 + (i - 1) + 1) = day_from_year (1970 + (i - 1)) + days_in_year (1970 + (i - 1))"
    by (rule day_from_year_succ)
  then show ?case using step days_in_year_bounds(1) [of "1970 + (i - 1)"] by (simp add: algebra_simps)
qed

lemma year_lower_le: "day_from_year (year_lower d) \<le> d"
proof (cases "0 \<le> d")
  case True
  then have "day_from_year (1970 + d div 366) \<le> 366 * (d div 366)" by (intro day_from_year_upper) simp
  moreover have "366 * (d div 366) \<le> d" by (simp add: mult.commute)
  ultimately show ?thesis using True by (simp add: year_lower_def)
next
  case False
  then have "day_from_year (1970 + d div 365) \<le> 365 * (d div 365)" by (intro day_from_year_upper_neg) simp
  moreover have "365 * (d div 365) \<le> d" by (simp add: mult.commute)
  ultimately show ?thesis using False by (simp add: year_lower_def)
qed

lemma year_search_spec:
  "day_from_year y \<le> d \<Longrightarrow> day_from_year (year_search d y) \<le> d \<and> d < day_from_year (year_search d y + 1)"
proof (induction d y rule: year_search.induct)
  case (1 d y)
  show ?case
  proof (cases "day_from_year (y + 1) \<le> d")
    case True
    with 1 show ?thesis by (simp add: year_search.simps [of d y])
  next
    case False
    with 1 show ?thesis by (simp add: year_search.simps [of d y])
  qed
qed

lemma year_from_day_spec: "day_from_year (year_from_day d) \<le> d \<and> d < day_from_year (year_from_day d + 1)"
  unfolding year_from_day_def by (rule year_search_spec [OF year_lower_le])

lemma year_from_day_unique:
  assumes "day_from_year y \<le> d" and "d < day_from_year (y + 1)"
  shows "year_from_day d = y"
proof -
  let ?z = "year_from_day d"
  have z: "day_from_year ?z \<le> d" "d < day_from_year (?z + 1)" using year_from_day_spec by auto
  have "\<not> ?z < y"
  proof
    assume "?z < y"
    then have "?z + 1 \<le> y" by simp
    then have "day_from_year (?z + 1) \<le> day_from_year y" using day_from_year_mono [of "?z + 1" y] by (cases "?z + 1 = y") auto
    with z assms show False by simp
  qed
  moreover have "\<not> y < ?z"
  proof
    assume "y < ?z"
    then have "y + 1 \<le> ?z" by simp
    then have "day_from_year (y + 1) \<le> day_from_year ?z" using day_from_year_mono [of "y + 1" ?z] by (cases "y + 1 = ?z") auto
    with z assms show False by simp
  qed
  ultimately show ?thesis by simp
qed

lemma year_length: "month_start (is_leap y) 11 + 31 = days_in_year y"
  by (auto simp: is_leap_def month_start_def days_in_year_def)

lemma month_end_le: "m < 12 \<Longrightarrow> month_start leap m + month_days leap m \<le> month_start leap 11 + 31"
proof (cases "m = 11")
  case True
  then show ?thesis by (simp add: month_days_def)
next
  case False
  assume "m < 12"
  with False have "Suc m \<le> 11" by simp
  then have "month_start leap (Suc m) \<le> month_start leap 11" by (rule month_start_le) simp
  with False \<open>m < 12\<close> show ?thesis by (simp add: month_start_Suc)
qed

text \<open>For every valid date \<open>(y, m, d)\<close>, the year, month and date of the day \<open>MakeDay(y, m, d)\<close> are \<open>(y, m, d)\<close> again.\<close>

theorem date_of_make_day:
  assumes "valid_date y m dt"
  shows "date_of_day (make_day y (int m) dt) = (y, m, dt)"
proof -
  from assms have m: "m < 12" and dt: "1 \<le> dt" "dt \<le> month_days (is_leap y) m" by (simp_all add: valid_date_def)
  have md: "make_day y (int m) dt = day_from_year y + (month_start (is_leap y) m + (dt - 1))"
    using m by (simp add: make_day_def)
  have "month_start (is_leap y) m + (dt - 1) < days_in_year y"
    using month_end_le [OF m, of "is_leap y"] year_length [of y] dt by simp
  then have "year_from_day (make_day y (int m) dt) = y"
    using month_start_le [of 0 m "is_leap y"] m dt md
    by (intro year_from_day_unique) (simp_all add: day_from_year_succ month_start_def)
  moreover have "month_of (is_leap y) (month_start (is_leap y) m + (dt - 1)) = m"
    using m dt by (intro month_of_start) simp_all
  ultimately show ?thesis by (simp add: date_of_day_def md)
qed

text \<open>Every day number decomposes into a valid date (month below 12, date within the month's length) whose \<open>MakeDay\<close> is that day: the two functions are inverse bijections.\<close>

theorem make_day_date_of_day:
  assumes "date_of_day d = (y, m, dt)"
  shows "valid_date y m dt \<and> make_day y (int m) dt = d"
proof -
  have y: "y = year_from_day d" using assms by (simp add: date_of_day_def Let_def)
  let ?doy = "d - day_from_year y"
  have doy: "0 \<le> ?doy" "?doy < month_start (is_leap y) 11 + 31"
    using year_from_day_spec [of d] y year_length [of y] by (simp_all add: day_from_year_succ)
  have m: "m = month_of (is_leap y) ?doy" using assms y by (simp add: date_of_day_def Let_def)
  have dt: "dt = ?doy - month_start (is_leap y) m + 1" using assms y m by (auto simp: date_of_day_def Let_def)
  from month_of_bounds [OF doy] m have "m < 12" "month_start (is_leap y) m \<le> ?doy"
    "?doy < month_start (is_leap y) m + month_days (is_leap y) m" by simp_all
  with dt show ?thesis by (simp add: valid_date_def make_day_def)
qed

text \<open>The upward year search terminates on every day \<open>d\<close> and returns exactly the year \<open>y\<close> with \<open>DayFromYear(y) \<le> d < DayFromYear(y + 1)\<close>, the largest year that starts on or before \<open>d\<close>, as YearFromTime is specified.\<close>

theorem year_from_day_correct:
  "year_from_day d = y \<longleftrightarrow> day_from_year y \<le> d \<and> d < day_from_year (y + 1)"
  using year_from_day_spec [of d] year_from_day_unique [of y d] by blast

text \<open>For every day number, the decomposed month is below 12, the date lies between 1 and the month's length (at most 31), and the day lies within the decomposed year.\<close>

theorem date_of_day_bounds:
  "case date_of_day d of (y, m, dt) \<Rightarrow>
     m < 12 \<and> 1 \<le> dt \<and> dt \<le> month_days (is_leap y) m \<and> month_days (is_leap y) m \<le> 31 \<and>
     day_from_year y \<le> d \<and> d < day_from_year y + days_in_year y"
proof -
  let ?y = "year_from_day d"
  let ?doy = "d - day_from_year ?y"
  have doy: "0 \<le> ?doy" "?doy < month_start (is_leap ?y) 11 + 31"
    using year_from_day_spec [of d] year_length [of ?y] by (simp_all add: day_from_year_succ)
  note b = month_of_bounds [OF doy]
  have "month_days (is_leap ?y) (month_of (is_leap ?y) ?doy) \<le> 31" by (simp add: month_days_def)
  then show ?thesis
    using b year_from_day_spec [of d] by (simp add: date_of_day_def Let_def day_from_year_succ)
qed

section \<open>Examples\<close>

theorem date_of_make_day_witness: "date_of_day (make_day 2024 (int 1) 29) = (2024, 1, 29)"
proof -
  have "valid_date 2024 1 29" by code_simp
  then show ?thesis by (rule date_of_make_day)
qed

theorem make_day_date_of_day_witness: "valid_date 2024 5 1 \<and> make_day 2024 (int 5) 1 = 19875"
proof -
  have "date_of_day 19875 = (2024, 5, 1)" by code_simp
  then show ?thesis by (rule make_day_date_of_day)
qed

theorem date_of_day_bounds_witness:
  "date_of_day (-1) = (1969, 11, 31) \<and> 1 \<le> (31::int) \<and> (31::int) \<le> month_days (is_leap 1969) 11"
proof -
  have e: "date_of_day (-1) = (1969, 11, 31)" by code_simp
  from date_of_day_bounds [of "-1"] e show ?thesis by simp
qed

end
