(* ===== verification/DateFormat.thy ===== *)
theory DateFormat
  imports JsValue Calendar
begin

text \<open>
  \<open>format(new Date(v), 'yyyy-MM-dd')\<close> of lines 39, 134 and 140: the Date
  constructor on the value \<open>v\<close> read from the request body, and date-fns'
  \<open>format\<close> with the pattern \<open>yyyy-MM-dd\<close>, in the local time of the server.
  A time value is a number of milliseconds since 1970-01-01T00:00Z, or NaN (an Invalid
  Date).  The local time zone is a fixed offset \<open>tz\<close> in minutes east of UTC (a
  zone without daylight saving time changes; \<open>tz = -300\<close> is New York in winter).

  A string is parsed as the Date Time String Format of ECMAScript (section 21.4.1.32):
  \<open>YYYY\<close>, \<open>YYYY-MM\<close> or \<open>YYYY-MM-DD\<close>, optionally followed by
  \<open>THH:mm\<close>, \<open>THH:mm:ss\<close> or \<open>THH:mm:ss.sss\<close> and a zone \<open>Z\<close> or
  \<open>+HH:mm\<close>/\<open>-HH:mm\<close>.  A date-only form is UTC; a date-time form without a zone
  is local time.  Field values are checked as V8 checks them (month 1-12, day 1-31,
  hours 0-23 or 24:00, minutes and seconds 0-59), and an overflowing day moves into the
  next month as in MakeDay.  A string outside this format is handed by V8 to its legacy
  parser, which is not modelled: the model gives \<open>None\<close> for it.
\<close>

section \<open>Time values\<close>

datatype time_value = Time int | TimeNaN

definition ms_per_day :: int where
  "ms_per_day = 86400000"

text \<open>TimeClip: the range of \<open>Date\<close> is 8.64e15 ms either side of the epoch.\<close>

definition time_clip :: "int \<Rightarrow> time_value" where
  "time_clip t = (if \<bar>t\<bar> \<le> 8640000000000000 then Time t else TimeNaN)"

text \<open>TimeClip of a number: NaN out of range, else the number truncated toward zero.\<close>

definition num_time_clip :: "rat \<Rightarrow> time_value" where
  "num_time_clip q =
     (if 8640000000000000 < \<bar>q\<bar> then TimeNaN
      else Time (if 0 \<le> q then \<lfloor>q\<rfloor> else - \<lfloor>- q\<rfloor>))"

section \<open>The Date Time String Format\<close>

record iso_fields =
  f_year :: nat
  f_month :: nat
  f_day :: nat
  f_time :: "(nat \<times> nat \<times> nat \<times> nat) option"
  f_offset :: "int option"

text \<open>
  \<open>f_time\<close> is \<open>None\<close> for a date-only form, else the hours, minutes, seconds and
  milliseconds; \<open>f_offset\<close> is the zone in minutes east of UTC, \<open>None\<close> when
  absent.
\<close>

definition take_digits :: "nat \<Rightarrow> string \<Rightarrow> (nat \<times> string) option" where
  "take_digits n s =
     (if n \<le> length s \<and> list_all is_digit (take n s) then Some (digits_value (take n s), drop n s) else None)"

definition take_char :: "char \<Rightarrow> string \<Rightarrow> string option" where
  "take_char c s = (case s of x # r \<Rightarrow> if x = c then Some r else None | [] \<Rightarrow> None)"

definition parse_date_part :: "string \<Rightarrow> (nat \<times> nat \<times> nat \<times> string) option" where
  "parse_date_part s =
     (case take_digits 4 s of
        None \<Rightarrow> None
      | Some (y, r) \<Rightarrow>
          (case take_char CHR ''-'' r of
             None \<Rightarrow> Some (y, 1, 1, r)
           | Some r1 \<Rightarrow>
               (case take_digits 2 r1 of
                  None \<Rightarrow> None
                | Some (mo, r2) \<Rightarrow>
                    (case take_char CHR ''-'' r2 of
                       None \<Rightarrow> Some (y, mo, 1, r2)
                     | Some r3 \<Rightarrow>
                         (case take_digits 2 r3 of
                            None \<Rightarrow> None
                          | Some (d, r4) \<Rightarrow> Some (y, mo, d, r4))))))"

definition parse_time_part :: "string \<Rightarrow> ((nat \<times> nat \<times> nat \<times> nat) \<times> string) option" where
  "parse_time_part s =
     (case take_digits 2 s of
        None \<Rightarrow> None
      | Some (h, r) \<Rightarrow>
          (case take_char CHR '':'' r of
             None \<Rightarrow> None
           | Some r1 \<Rightarrow>
               (case take_digits 2 r1 of
                  None \<Rightarrow> None
                | Some (mi, r2) \<Rightarrow>
                    (case take_char CHR '':'' r2 of
                       None \<Rightarrow> Some ((h, mi, 0, 0), r2)
                     | Some r3 \<Rightarrow>
                         (case take_digits 2 r3 of
                            None \<Rightarrow> None
                          | Some (se, r4) \<Rightarrow>
                              (case take_char CHR ''.'' r4 of
                                 None \<Rightarrow> Some ((h, mi, se, 0), r4)
                               | Some r5 \<Rightarrow>
                                   (case take_digits 3 r5 of
                                      None \<Rightarrow> None
                                    | Some (ms, r6) \<Rightarrow> Some ((h, mi, se, ms), r6))))))))"

text \<open>The zone designator, and then the end of the string.\<close>

definition parse_offset :: "string \<Rightarrow> int option option" where
  "parse_offset s =
     (if s = [] then Some None
      else if s = ''Z'' then Some (Some 0)
      else case s of
        c # r \<Rightarrow>
          if c = CHR ''+'' \<or> c = CHR ''-'' then
            (case take_digits 2 r of
               Some (h, r1) \<Rightarrow>
                 (case take_char CHR '':'' r1 of
                    Some r2 \<Rightarrow>
                      (case take_digits 2 r2 of
                         Some (mi, []) \<Rightarrow>
                           if h \<le> 23 \<and> mi \<le> 59
                           then Some (Some ((if c = CHR ''-'' then -1 else 1) * int (60 * h + mi)))
                           else None
                       | _ \<Rightarrow> None)
                  | None \<Rightarrow> None)
             | None \<Rightarrow> None)
          else None
      | [] \<Rightarrow> None)"

definition parse_iso :: "string \<Rightarrow> iso_fields option" where
  "parse_iso s =
     (case parse_date_part s of
        None \<Rightarrow> None
      | Some (y, mo, d, r) \<Rightarrow>
          if r = [] then Some \<lparr>f_year = y, f_month = mo, f_day = d, f_time = None, f_offset = None\<rparr>
          else
            (case take_char CHR ''T'' r of
               None \<Rightarrow> None
             | Some r1 \<Rightarrow>
                 (case parse_time_part r1 of
                    None \<Rightarrow> None
                  | Some (tm, r2) \<Rightarrow>
                      (case parse_offset r2 of
                         None \<Rightarrow> None
                       | Some off \<Rightarrow>
                           Some \<lparr>f_year = y, f_month = mo, f_day = d, f_time = Some tm, f_offset = off\<rparr>))))"

text \<open>V8's checks of the fields (\<open>DayComposer\<close> and \<open>TimeComposer\<close>).\<close>

definition iso_valid :: "iso_fields \<Rightarrow> bool" where
  "iso_valid f \<longleftrightarrow>
     1 \<le> f_month f \<and> f_month f \<le> 12 \<and> 1 \<le> f_day f \<and> f_day f \<le> 31 \<and>
     (case f_time f of
        None \<Rightarrow> True
      | Some (h, mi, se, ms) \<Rightarrow> (h \<le> 23 \<and> mi \<le> 59 \<and> se \<le> 59) \<or> (h = 24 \<and> mi = 0 \<and> se = 0 \<and> ms = 0))"

definition iso_time_value :: "int \<Rightarrow> iso_fields \<Rightarrow> time_value" where
  "iso_time_value tz f =
     (if \<not> iso_valid f then TimeNaN
      else
        let day = make_day (int (f_year f)) (int (f_month f) - 1) (int (f_day f));
            (h, mi, se, ms) = (case f_time f of None \<Rightarrow> (0, 0, 0, 0) | Some tm \<Rightarrow> tm);
            t = day * ms_per_day + int h * 3600000 + int mi * 60000 + int se * 1000 + int ms
        in time_clip
             (case f_offset f of
                Some off \<Rightarrow> t - off * 60000
              | None \<Rightarrow> if f_time f = None then t else t - tz * 60000))"

section \<open>The Date constructor and date-fns format\<close>

text \<open>
  \<open>new Date(v)\<close> with one argument: ToPrimitive, then a string is parsed and any
  other value goes through ToNumber and TimeClip.  \<open>None\<close>: a string outside the
  Date Time String Format.
\<close>

definition new_Date :: "int \<Rightarrow> json \<Rightarrow> time_value option" where
  "new_Date tz v =
     (case v of
        JUndefined \<Rightarrow> Some TimeNaN
      | JNull \<Rightarrow> Some (Time 0)
      | JBool b \<Rightarrow> Some (Time (if b then 1 else 0))
      | JNumber m e \<Rightarrow> Some (num_time_clip (of_int m * (if 0 \<le> e then 10 ^ nat e else 1 / 10 ^ nat (- e))))
      | _ \<Rightarrow> map_option (iso_time_value tz) (parse_iso (js_to_string v)))"

text \<open>
  date-fns' \<open>addLeadingZeros\<close>, and the tokens \<open>yyyy\<close> (the year of the era:
  \<open>1 - y\<close> for a year \<open>y \<le> 0\<close>), \<open>MM\<close> and \<open>dd\<close> of the local date.
\<close>

definition pad_num :: "nat \<Rightarrow> nat \<Rightarrow> string" where
  "pad_num n k = (let s = nat_digits k in replicate (n - length s) CHR ''0'' @ s)"

definition print_date :: "int \<times> nat \<times> int \<Rightarrow> string" where
  "print_date ymd =
     (case ymd of (y, m, d) \<Rightarrow>
        pad_num 4 (nat (if 0 < y then y else 1 - y)) @ ''-'' @ pad_num 2 (Suc m) @ ''-'' @ pad_num 2 (nat d))"

definition local_day :: "int \<Rightarrow> int \<Rightarrow> int" where
  "local_day tz t = (t + tz * 60000) div ms_per_day"

definition format_yyyy_MM_dd :: "int \<Rightarrow> time_value \<Rightarrow> js_error + string" where
  "format_yyyy_MM_dd tz tv =
     (case tv of
        TimeNaN \<Rightarrow> Inl (RangeError ''Invalid time value'')
      | Time t \<Rightarrow> Inr (print_date (date_of_day (local_day tz t))))"

definition date_model :: "int \<Rightarrow> json \<Rightarrow> (js_error + string) option" where
  "date_model tz v = map_option (format_yyyy_MM_dd tz) (new_Date tz v)"

section \<open>Lemmas\<close>

lemma digits_value_zero_Cons [simp]: "digits_value (CHR ''0'' # s) = digits_value s"
  using digits_value_append [of "[CHR ''0'']" s] by (simp add: digit_val_def)

lemma digits_value_replicate_zero [simp]: "digits_value (replicate j CHR ''0'' @ s) = digits_value s"
  by (induction j) simp_all

lemma is_digit_zero [simp]: "is_digit CHR ''0''"
  by (simp add: is_digit_def)

lemma length_pad_num: "k < 10 ^ n \<Longrightarrow> 0 < n \<Longrightarrow> length (pad_num n k) = n"
  using length_nat_digits [of k n] by (simp add: pad_num_def Let_def)

lemma pad_num_digits: "list_all is_digit (pad_num n k)"
  by (auto simp: pad_num_def Let_def list_all_iff)

lemma take_digits_pad:
  assumes "k < 10 ^ n" and "0 < n"
  shows "take_digits n (pad_num n k @ rest) = Some (k, rest)"
proof -
  have l: "length (pad_num n k) = n" using assms by (rule length_pad_num)
  then have "take n (pad_num n k @ rest) = pad_num n k" "drop n (pad_num n k @ rest) = rest" by simp_all
  moreover have "digits_value (pad_num n k) = k" by (simp add: pad_num_def Let_def)
  ultimately show ?thesis using l pad_num_digits [of n k] by (simp add: take_digits_def)
qed

lemma take_char_Cons [simp]: "take_char c (c # r) = Some r"
  by (simp add: take_char_def)

lemma pad_num_hd_digit: "k < 10 ^ n \<Longrightarrow> 0 < n \<Longrightarrow> pad_num n k \<noteq> []"
  using length_pad_num [of k n] by auto

lemma parse_iso_print_date:
  assumes "1 \<le> y" and "y \<le> 9999" and "m < 12" and "1 \<le> d" and "d \<le> 31"
  shows "parse_iso (print_date (y, m, d)) =
           Some \<lparr>f_year = nat y, f_month = Suc m, f_day = nat d, f_time = None, f_offset = None\<rparr>"
proof -
  have y: "nat y < 10 ^ 4" and mo: "Suc m < 10 ^ 2" and dd: "nat d < 10 ^ 2" using assms by simp_all
  have "parse_date_part (print_date (y, m, d)) = Some (nat y, Suc m, nat d, [])"
    using take_digits_pad [OF y, of "CHR ''-'' # pad_num 2 (Suc m) @ CHR ''-'' # pad_num 2 (nat d)"]
          take_digits_pad [OF mo, of "CHR ''-'' # pad_num 2 (nat d)"] take_digits_pad [OF dd, of "[]"] assms(1)
    by (simp add: parse_date_part_def print_date_def)
  then show ?thesis by (simp add: parse_iso_def)
qed

lemma make_day_in_year: "m < 12 \<Longrightarrow> make_day y (int m) d = day_from_year y + month_start (is_leap y) m + d - 1"
  by (simp add: make_day_def)

lemma make_day_range:
  assumes "1 \<le> y" and "y \<le> 9999" and "m < 12" and "1 \<le> d" and "d \<le> 31"
  shows "\<bar>make_day y (int m) d\<bar> \<le> 3000000"
proof -
  have lo: "day_from_year 1 \<le> day_from_year y" using day_from_year_mono [of 1 y] assms(1) by (cases "y = 1") auto
  have hi: "day_from_year y < day_from_year 10000" using day_from_year_mono assms(2) by simp
  have "month_start (is_leap y) 0 = 0" "month_start (is_leap y) 11 \<le> 335" by (simp_all add: month_start_def)
  then have ms: "0 \<le> month_start (is_leap y) m" "month_start (is_leap y) m \<le> 335"
    using month_start_le [of 0 m "is_leap y"] month_start_le [of m 11 "is_leap y"] assms(3) by simp_all
  have "day_from_year 1 = -719162" "day_from_year 10000 = 2932897" by (simp_all add: day_from_year_def)
  with lo hi ms assms(4,5) show ?thesis by (simp add: make_day_in_year [OF assms(3)])
qed

lemma local_day_midnight: "local_day tz (day * ms_per_day) = day + tz div 1440"
proof -
  have "(tz * 60000) div 86400000 = tz div 1440"
    using div_mult_mult2 [of 60000 tz 1440] by simp
  then show ?thesis by (simp add: local_day_def ms_per_day_def)
qed

lemma new_Date_print_date:
  assumes "1 \<le> y" and "y \<le> 9999" and "valid_date y m d"
  shows "new_Date tz (JString (print_date (y, m, d))) = Some (Time (make_day y (int m) d * ms_per_day))"
proof -
  from assms(3) have m: "m < 12" and d: "1 \<le> d" "d \<le> 31"
    by (auto simp: valid_date_def month_days_def split: if_splits)
  have p: "parse_iso (print_date (y, m, d)) =
             Some \<lparr>f_year = nat y, f_month = Suc m, f_day = nat d, f_time = None, f_offset = None\<rparr>"
    using assms(1,2) m d by (rule parse_iso_print_date)
  have r: "\<bar>make_day y (int m) d\<bar> \<le> 3000000" using assms(1,2) m d by (rule make_day_range)
  then have "\<bar>make_day y (int m) d * ms_per_day\<bar> \<le> 8640000000000000"
    by (simp add: ms_per_day_def abs_mult)
  moreover have "Suc 0 \<le> nat d" "nat d \<le> 31" using d by arith+
  ultimately show ?thesis using p m d assms(1) by (simp add: new_Date_def iso_time_value_def iso_valid_def time_clip_def)
qed

lemma date_model_date_only:
  assumes "1 \<le> y" and "y \<le> 9999" and "valid_date y m d"
  shows "date_model tz (JString (print_date (y, m, d))) =
           Some (Inr (print_date (date_of_day (make_day y (int m) d + tz div 1440))))"
  using new_Date_print_date [OF assms]
  by (simp add: date_model_def format_yyyy_MM_dd_def local_day_midnight)

text \<open>C33. For a valid date-only string \<open>YYYY-MM-DD\<close> (years 1 to 9999) and a server time zone at or east of UTC, \<open>format(new Date(s), 'yyyy-MM-dd')\<close> gives back \<open>s\<close>.\<close>

theorem date_model_east:
  assumes "1 \<le> y" and "y \<le> 9999" and "valid_date y m d" and "0 \<le> tz" and "tz < 1440"
  shows "date_model tz (JString (print_date (y, m, d))) = Some (Inr (print_date (y, m, d)))"
proof -
  have "tz div 1440 = 0" using assms(4,5) by simp
  then show ?thesis using date_model_date_only [OF assms(1-3), of tz] date_of_make_day [OF assms(3)] by simp
qed

text \<open>C34. For a valid date-only string \<open>YYYY-MM-DD\<close> and a server time zone west of UTC, \<open>format(new Date(s), 'yyyy-MM-dd')\<close> prints the valid date of the previous day: the string is read as UTC midnight and printed in local time.\<close>

theorem date_model_west:
  assumes "1 \<le> y" and "y \<le> 9999" and "valid_date y m d" and "- 1440 \<le> tz" and "tz < 0"
  shows "\<exists>y' m' d'. date_model tz (JString (print_date (y, m, d))) = Some (Inr (print_date (y', m', d'))) \<and>
           valid_date y' m' d' \<and> make_day y' (int m') d' = make_day y (int m) d - 1"
proof -
  have "tz div 1440 = -1" using assms(4,5) by (simp add: div_eq_minus1)
  moreover obtain y' m' d' where e: "date_of_day (make_day y (int m) d - 1) = (y', m', d')" by (metis prod_cases3)
  ultimately show ?thesis using date_model_date_only [OF assms(1-3), of tz] make_day_date_of_day [OF e] by auto
qed

text \<open>C36. A string of the Date Time String Format whose fields are out of range (such as month 13) makes an Invalid Date, and \<open>format\<close> throws \<open>RangeError('Invalid time value')\<close>, which the handler answers with status 500.\<close>

theorem date_model_invalid:
  assumes "parse_iso s = Some f" and "\<not> iso_valid f"
  shows "date_model tz (JString s) = Some (Inl (RangeError ''Invalid time value''))"
  using assms by (simp add: date_model_def new_Date_def iso_time_value_def format_yyyy_MM_dd_def)

lemma parse_time_hm:
  assumes "h < 100" and "mi < 100"
  shows "parse_time_part (pad_num 2 h @ CHR '':'' # pad_num 2 mi) = Some ((h, mi, 0, 0), [])"
  using take_digits_pad [of h 2 "CHR '':'' # pad_num 2 mi"] take_digits_pad [of mi 2 "[]"] assms
  by (simp add: parse_time_part_def take_char_def)

lemma parse_iso_local_time:
  assumes "1 \<le> y" and "y \<le> 9999" and "m < 12" and "1 \<le> d" and "d \<le> 31" and "h < 100" and "mi < 100"
  shows "parse_iso (print_date (y, m, d) @ CHR ''T'' # pad_num 2 h @ CHR '':'' # pad_num 2 mi) =
           Some \<lparr>f_year = nat y, f_month = Suc m, f_day = nat d, f_time = Some (h, mi, 0, 0), f_offset = None\<rparr>"
proof -
  have y: "nat y < 10 ^ 4" and mo: "Suc m < 10 ^ 2" and dd: "nat d < 10 ^ 2" using assms by simp_all
  let ?r = "CHR ''T'' # pad_num 2 h @ CHR '':'' # pad_num 2 mi"
  have "parse_date_part (print_date (y, m, d) @ ?r) = Some (nat y, Suc m, nat d, ?r)"
    using take_digits_pad [OF y, of "CHR ''-'' # pad_num 2 (Suc m) @ CHR ''-'' # pad_num 2 (nat d) @ ?r"]
          take_digits_pad [OF mo, of "CHR ''-'' # pad_num 2 (nat d) @ ?r"] take_digits_pad [OF dd, of ?r] assms(1)
    by (simp add: parse_date_part_def print_date_def)
  then show ?thesis using parse_time_hm [OF assms(6,7)] by (simp add: parse_iso_def parse_offset_def)
qed

lemma local_day_within: "0 \<le> r \<Longrightarrow> r < ms_per_day \<Longrightarrow> local_day 0 (day * ms_per_day + r) = day"
  by (simp add: local_day_def ms_per_day_def)

text \<open>C35. A date-time string \<open>YYYY-MM-DDTHH:mm\<close> without a zone is read in local time, so it formats to its own date \<open>YYYY-MM-DD\<close> in every time zone within a day of UTC.\<close>

theorem date_model_local_time:
  assumes "1 \<le> y" and "y \<le> 9999" and "valid_date y m d" and "h \<le> 23" and "mi \<le> 59"
    and "- 1440 \<le> tz" and "tz \<le> 1440"
  shows "date_model tz (JString (print_date (y, m, d) @ CHR ''T'' # pad_num 2 h @ CHR '':'' # pad_num 2 mi)) =
           Some (Inr (print_date (y, m, d)))"
proof -
  from assms(3) have m: "m < 12" and d: "1 \<le> d" "d \<le> 31"
    by (auto simp: valid_date_def month_days_def split: if_splits)
  have p: "parse_iso (print_date (y, m, d) @ CHR ''T'' # pad_num 2 h @ CHR '':'' # pad_num 2 mi) =
             Some \<lparr>f_year = nat y, f_month = Suc m, f_day = nat d, f_time = Some (h, mi, 0, 0), f_offset = None\<rparr>"
    using assms(1,2) m d assms(4,5) by (intro parse_iso_local_time) simp_all
  let ?day = "make_day y (int m) d"
  let ?r = "int h * 3600000 + int mi * 60000"
  have r: "0 \<le> ?r" "?r < ms_per_day" using assms(4,5) by (simp_all add: ms_per_day_def)
  have "\<bar>?day\<bar> \<le> 3000000" using assms(1,2) m d by (rule make_day_range)
  then have clip: "\<bar>?day * ms_per_day + ?r - tz * 60000\<bar> \<le> 8640000000000000"
    using r assms(6,7) by (simp add: ms_per_day_def abs_le_iff)
  have "Suc 0 \<le> nat d" "nat d \<le> 31" using d by arith+
  then have "new_Date tz (JString (print_date (y, m, d) @ CHR ''T'' # pad_num 2 h @ CHR '':'' # pad_num 2 mi)) =
               Some (Time (?day * ms_per_day + ?r - tz * 60000))"
    using p m d assms(1,4,5) clip by (simp add: new_Date_def iso_time_value_def iso_valid_def time_clip_def Let_def add.assoc)
  moreover have "local_day tz (?day * ms_per_day + ?r - tz * 60000) = ?day"
    using local_day_within [OF r] by (simp add: local_day_def)
  ultimately show ?thesis using date_of_make_day [OF assms(3)]
    by (simp add: date_model_def format_yyyy_MM_dd_def)
qed

section \<open>Examples\<close>

theorem date_model_east_witness:
  "date_model 120 (JString ''2024-06-01'') = Some (Inr ''2024-06-01'')"
proof -
  have v: "valid_date 2024 5 1" by code_simp
  have p: "print_date (2024, 5, 1) = ''2024-06-01''" by code_simp
  show ?thesis using date_model_east [OF _ _ v, of 120] p by simp
qed

theorem date_model_west_witness:
  "\<exists>y' m' d'. date_model (-300) (JString ''2024-06-01'') = Some (Inr (print_date (y', m', d'))) \<and>
     valid_date y' m' d' \<and> make_day y' (int m') d' = make_day 2024 5 1 - 1"
proof -
  have v: "valid_date 2024 5 1" by code_simp
  have p: "print_date (2024, 5, 1) = ''2024-06-01''" by code_simp
  show ?thesis using date_model_west [OF _ _ v, of "-300"] p by simp
qed

theorem date_model_invalid_witness:
  "date_model 0 (JString ''2024-13-01'') = Some (Inl (RangeError ''Invalid time value''))"
proof -
  have p: "parse_iso ''2024-13-01'' = Some \<lparr>f_year = 2024, f_month = 13, f_day = 1, f_time = None, f_offset = None\<rparr>"
    by code_simp
  have "\<not> iso_valid \<lparr>f_year = 2024, f_month = 13, f_day = 1, f_time = None, f_offset = None\<rparr>"
    by (simp add: iso_valid_def)
  with p show ?thesis by (rule date_model_invalid)
qed

theorem date_model_local_time_witness:
  "date_model (-300) (JString ''2024-06-01T00:30'') = Some (Inr ''2024-06-01'')"
proof -
  have v: "valid_date 2024 5 1" by code_simp
  have p: "print_date (2024, 5, 1) = ''2024-06-01''" by code_simp
  have s: "print_date (2024, 5, 1) @ CHR ''T'' # pad_num 2 0 @ CHR '':'' # pad_num 2 30 = ''2024-06-01T00:30''"
    by code_simp
  show ?thesis using date_model_local_time [OF _ _ v, of 0 30 "-300"] p s by simp
qed

end
