(* ===== verification/Spec2Isabelle.thy ===== *)
theory Spec2Isabelle
  imports Prelude JsValue Duration JsNumber Offers Ranking UrlParams Pipeline PipelineV1 Server JsonText Reply Ky Calendar DateFormat
begin

text \<open>
  \<^bold>\<open>A verification development of the flight-search proxy \<open>src/index.js\<close>.\<close>

  \<^bold>\<open>The program.\<close>  \<open>src/index.js\<close> holds two versions of one Express server.
  The second (lines 94-217) is the one the specification calls canonical; the first
  (lines 1-93) differs in the query it sends and in having neither an upstream error
  check nor a local ranking.  A request \<open>POST /api/search\<close> is validated by the
  handler, which calls \<open>searchAmadeus(q)\<close>: it obtains a bearer token from the
  token endpoint (\<open>getAccessToken\<close>), builds the query parameters, fetches the
  offers, throws on an upstream error list, maps each offer to an option
  (\<open>parseISODurationToMinutes\<close> for durations, \<open>parseFloat\<close> for prices) and
  ranks the options locally by \<open>optimize\<close> (shortest, cheapest, or a balanced score).

  \<^bold>\<open>The theories.\<close>
  \<^item> \<open>Prelude\<close>: the exception monad \<open>ebind\<close> of a sum \<open>js_error + 'a\<close>, the
    throwing map \<open>emap_from\<close> (JavaScript's \<open>Array.prototype.map\<close> with a callback
    that may throw), decimal digits, \<open>join_with\<close>, and the bound on the exponent of a
    power of ten that a number divides.
  \<^item> \<open>JsValue\<close>: the JavaScript values the program reads, as parsed JSON plus
    \<open>undefined\<close> (\<open>json\<close>), the exceptions (\<open>js_error\<close>), truthiness and \<open>||\<close>
    (\<open>truthy\<close>, \<open>js_or\<close>), property access with V8's \<open>TypeError\<close> (\<open>get_prop\<close>,
    optional chaining \<open>get_opt\<close>), \<open>.map\<close> on any value (\<open>call_map\<close>),
    \<open>ToString\<close> and Number::toString (\<open>js_to_string\<close>, \<open>num_to_string\<close>),
    \<open>join\<close> and \<open>JSON.stringify\<close>.
  \<^item> \<open>Duration\<close>: \<open>parseISODurationToMinutes\<close> (lines 26-31 and 108-113).  The
    regular expression is modelled twice: as ECMAScript's backtracking matcher
    (\<open>re_exec\<close>, \<open>mt\<close>) run on the literal written as a term (\<open>pt_regex\<close>), and
    directly (\<open>pt_match\<close>: the leftmost \<open>PT\<close>, then the two optional groups).
    Lemmas: the two agree on every string; the parser's value on every shape.
  \<^item> \<open>JsNumber\<close>: numbers as the ranking computes with them (\<open>jsnum\<close>: an exact
    rational, NaN, or an infinity), the arithmetic, \<open>Math.min\<close>/\<open>Math.max\<close>,
    SortCompare's reading of a comparator result (\<open>cmp_sign\<close>) and \<open>parseFloat\<close>.
  \<^item> \<open>Offers\<close>: the option and leg records and the mapping of one offer
    (\<open>map_offer\<close>, lines 154-176 and 51-73) and of the data array (\<open>map_offers\<close>).
    Lemmas: totality on well-shaped data, the transfer invariant, the fallback
    identifier, the first exception of a failing mapping.
  \<^item> \<open>Ranking\<close>: \<open>Array.prototype.sort\<close> (\<open>js_sort\<close>, a stable insertion sort
    reading only the sign of the comparator), the three comparators and the balanced
    scores (lines 178-194, \<open>rank_options\<close>).  Lemmas: sorting with a key difference
    is the unique stable sorted permutation; each mode's order; the balanced mode
    refines the rational formula \<open>balanced_score\<close>; what equal prices and a NaN price do.
  \<^item> \<open>UrlParams\<close>: \<open>URLSearchParams\<close> (construction from a record, \<open>set\<close>,
    \<open>toString\<close>) and, as its specification, the parser of the URL standard; the
    serialized pairs parse back to themselves.
  \<^item> \<open>Pipeline\<close>: the second version's \<open>getAccessToken\<close>, query parameters
    (\<open>search_params\<close>), error check (\<open>check_errors\<close>), \<open>searchAmadeus\<close> and the
    route handlers (\<open>handle_search\<close>, \<open>handle_health\<close>).  A search returns the list
    of HTTP requests it sent, in order, with its result; the handler returns its events
    (requests and log lines) with the reply object.
  \<^item> \<open>PipelineV1\<close>: the first version's token exchange, parameters, search and
    handlers, and how the two versions relate.
  \<^item> \<open>Server\<close>: the server under concurrent requests.  A connection
    (\<open>conn\<close>) is a request body, the \<open>await\<close> its handler stopped at (\<open>phase\<close>:
    before the token POST of line 116 returns, before the offer search of line 142
    returns, or replied) and its events; \<open>conn_step\<close> runs the handler of lines 200-212,
    with \<open>getAccessToken\<close> and \<open>searchAmadeus\<close> inlined, from one await to the next,
    and the relation \<open>server_step\<close> interleaves arrivals of requests with steps of any
    open handler.  Lemmas, by rule induction on the reachable states: every reply sent
    is the sequential \<open>handle_search\<close>'s, and from every reachable state all open
    handlers can run to a reply (each within three steps of its own).
  \<^item> \<open>JsonText\<close>: \<open>JSON.parse\<close> on the ECMA-404 grammar (\<open>json_parse\<close>, a
    recursive descent over the text with fuel: each call spends one unit and a value's
    text is never shorter than the fuel its parse needs, so the length of the text is
    enough), and what a client reads back from \<open>JSON.stringify\<close> (\<open>json_wire\<close>).
    Lemmas: Number::toString is parsed back to the number in all four of its forms,
    quoted strings to themselves, and every stringified value to its \<open>json_wire\<close>.
  \<^item> \<open>Reply\<close>: \<open>res.json\<close> of the handlers' reply objects (\<open>reply_object\<close>,
    \<open>res_json\<close>), with the option and leg objects of the offer mapping and prices
    written as exact decimals or \<open>null\<close> (\<open>jsnum_json\<close>).  Lemma: every reply of
    \<open>POST /api/search\<close> is sent, and the client parses it to an object of the
    documented shape (\<open>reply_shape\<close>).
  \<^item> \<open>Ky\<close>: the HTTP client behind the upstream.  \<open>ky_json net\<close> is
    \<open>ky.post(...).json()\<close> and \<open>ky.get(...).json()\<close> (lines 116-123, 142-145)
    over a network \<open>net\<close> that answers each request with a status and a body or a
    transport exception: a status outside 2xx throws \<open>HTTPError\<close> before the body
    is read, 204 or an empty body gives \<open>''\<close>, any other body goes through
    \<open>json_parse\<close>.  It is an upstream, so the pipeline's theorems apply to it.
    ky's default retry (\<open>ky_retry\<close>, \<open>ky_attempts\<close>): the GET, not the POST,
    is sent again after a network error or a status 408, 429 or 5xx, at most twice, over
    a wire network that answers each attempt; \<open>search_wire\<close> lists the requests
    as they are sent, and on a network that answers every attempt alike
    \<open>ky_send\<close> is \<open>ky_json\<close>.  Lemmas: the requests sent over the wire; a
    failed token exchange replies 500 with ky's message; an error status of the offer
    search fails the search before the \<open>errors\<close> check of lines 147-150 can run.
  \<^item> \<open>Calendar\<close>: ECMAScript's calendar on day numbers (DayFromYear, YearFromTime
    as a terminating upward search, MonthFromTime, MakeDay).  Lemmas: the search returns
    the year of the standard; \<open>make_day\<close> and \<open>date_of_day\<close> are inverse
    bijections between valid dates and days; bounds of the decomposition.
  \<^item> \<open>DateFormat\<close>: \<open>format(new Date(v), 'yyyy-MM-dd')\<close> of lines 39, 134 and
    140 (\<open>date_model\<close>): the Date constructor on every JSON value, Date.parse on the
    Date Time String Format with V8's field checks, and date-fns' \<open>format\<close> in a
    server time zone of fixed offset \<open>tz\<close> minutes east of UTC.  Lemmas: a date-only
    string is printed back east of UTC and as the previous day west of it; a local
    date-time keeps its date; out-of-range fields throw \<open>RangeError\<close>.
  \<^item> This theory: the end-to-end scenario of the specification, once on the parsed
    values and once over the wire (\<open>e2e_wire\<close>: a network answering with JSON texts,
    \<open>ky_json\<close>, the handler, \<open>res_json\<close> and the client's \<open>json_parse\<close>
    composed), and the departure date the pipeline sends when its formatter is the
    model (\<open>model_fmt\<close>): its shift by the server's time zone, and that it is
    always a valid calendar date.

  \<^bold>\<open>Correspondence.\<close>  Every definition is named after the function of
  \<open>src/index.js\<close> it translates, or after the library operation it stands for.  A
  JavaScript statement that can throw is a step of \<open>ebind\<close>, in the source's
  evaluation order, so each uncaught exception of the code is an \<open>Inl\<close> branch of
  the model with V8's message; \<open>try/catch\<close> is a case split on the sum.  The two
  \<open>ky\<close> calls are the only effects of a search: the upstream is a parameter
  \<open>up :: request \<Rightarrow> js_error + json\<close>, the outcome of the call on the request
  sent; within one handler an \<open>await\<close> is a sequential step, and the order of the
  requests is the list a search returns.  Between handlers, the awaits are the points
  at which \<open>Server\<close> lets other requests run.

  \<^bold>\<open>Numbers.\<close>  JSON numbers are decimals \<open>m \<cdot> 10^e\<close> and the numbers of the
  ranking exact rationals with NaN and the two infinities: IEEE-754 rounding and the
  sign of zero are not modelled, so the theorems about the balanced score speak of the
  score computed exactly.  Times and days are integers, as in ECMAScript.

  \<^bold>\<open>Not modelled.\<close>  Express itself (routing, \<open>cors\<close>, \<open>express.json\<close>
  parsing, which gives the handler its \<open>body\<close> value), \<open>dotenv\<close>, the
  environment (the credentials are the record \<open>config\<close>), the port of
  \<open>app.listen\<close> (its accepting of requests is the \<open>arrive\<close> step of \<open>Server\<close>),
  the timing of upstream responses (any interleaving is allowed), the transport below
  \<open>ky\<close> (the network is a parameter), the delays between ky's retries, the
  \<open>Retry-After\<close> header (so 413 is never retried) and ky's timeout.  The
  pipeline takes its date formatter as a parameter \<open>fmt\<close>, so its theorems hold for
  every formatter; \<open>model_fmt tz\<close> is the modelled one.  Strings that are not in
  the Date Time String Format go to V8's legacy date parser, which is not modelled
  (\<open>date_model\<close> is \<open>None\<close> on them); daylight saving changes of the time zone
  are not modelled (the offset is fixed).  Inherited properties of
  \<open>Object.prototype\<close> are not read by the code's property names and are not modelled.
  Header values that \<open>fetch\<close> would refuse (a line break in the token) are not
  modelled.  Strings are characters below 256, so a \<open>\uXXXX\<close> escape above
  \<open>\u00FF\<close> is outside the JSON parser (it gives \<open>None\<close>), and numbers are exact,
  so \<open>JSON.parse\<close> keeps digits that a double would round and a fraction that is not
  a decimal has no JSON text in the model (no price is one: prices come from
  \<open>parseFloat\<close>).  The specification places routing, CORS, environment loading and
  process startup outside its scope, and the code has no logic there.
\<close>

section \<open>Formatter and upstream response of the examples\<close>

text \<open>
  The departure date theorem holds for any formatter that agrees with \<open>date_model tz\<close>
  wherever the model is defined.  \<open>model_fmt\<close> is one such formatter, used in the
  example; on strings outside the Date Time String Format it throws, where V8's legacy
  parser may instead read a date.
\<close>

definition model_fmt :: "int \<Rightarrow> date_format" where
  "model_fmt tz v = (case date_model tz v of Some r \<Rightarrow> r | None \<Rightarrow> Inl (RangeError ''Invalid time value''))"

text \<open>The scenario's upstream response, as a JSON value; in \<open>e2e_wire\<close> the network
  sends its text.\<close>

definition e2e_offers :: json where
  "e2e_offers = JObject [(''data'', JArray [example_offer (JString ''A'') ''200.00'' ''PT5H30M'',
                                          example_offer (JString ''B'') ''150.00'' ''PT6H''])]"

section \<open>The end-to-end scenario\<close>

text \<open>The end-to-end scenario of the specification on the parsed values: a query from JFK to LAX on 2024-06-01 with \<open>optimize: 'cheapest'\<close>, against an upstream returning two offers priced 200.00 and 150.00, is answered with status 200 and two options in the order of price 150 then 200, after two upstream requests.\<close>

theorem e2e_cheapest:
  "\<exists>evs opts. handle_search example_cfg example_fmt
     (example_upstream example_token (JObject [(''data'', JArray [example_offer JUndefined ''200.00'' ''PT5H30M'', example_offer (JString ''7'') ''150.00'' ''PT6H''])]))
     (example_query ''cheapest'') = (evs, Reply 200 (BodyOptions opts)) \<and>
     length evs = 2 \<and> map price opts = [Fin 150, Fin 200] \<and> map option_id opts = [JString ''7'', JString ''am-0''] \<and>
     map totalDurationMin opts = [360, 330]"
  by (simp add: pipeline_example_simps example_simps handle_search_def query_complete_def searchAmadeus_def
      check_errors_def offers_data_def rank_options_def by_price_def js_sub_def)

lemma e2e_offers_wire: "json_wire e2e_offers = e2e_offers"
  unfolding e2e_offers_def example_offer_def example_segment_def by code_simp

text \<open>C11. The end-to-end scenario of the specification over the wire: a query from JFK to LAX on 2024-06-01 with \<open>optimize: 'cheapest'\<close>, against a network that answers the token POST and the search GET with status 200 and the JSON texts of a token and of two offers priced 200.00 and 150.00, is answered with status 200 and a body that the client's \<open>JSON.parse\<close> reads as \<open>ok: true\<close> with the options in the order of price 150 then 200.\<close>

theorem e2e_wire:
  "\<exists>t os. res_json (snd (handle_search example_cfg example_fmt (ky_json (ky_net example_token e2e_offers))
              (example_query ''cheapest''))) = Some (200, t) \<and>
     json_parse t = Some (JObject [(''ok'', JBool True), (''options'', JArray os)]) \<and>
     map (\<lambda>x. get_opt x ''price'') os = [JNumber 15 1, JNumber 2 2] \<and>
     map (\<lambda>x. get_opt x ''id'') os = [JString ''B'', JString ''A'']"
proof -
  have up: "ky_json (ky_net example_token e2e_offers) = example_upstream example_token e2e_offers"
    by (simp only: ky_net_upstream e2e_offers_wire example_token_wire)
  have "\<exists>evs opts. handle_search example_cfg example_fmt (example_upstream example_token e2e_offers)
     (example_query ''cheapest'') = (evs, Reply 200 (BodyOptions opts)) \<and>
     map price opts = [Fin 150, Fin 200] \<and> map option_id opts = [JString ''B'', JString ''A'']"
    by (simp add: e2e_offers_def pipeline_example_simps example_simps handle_search_def query_complete_def searchAmadeus_def
        check_errors_def offers_data_def rank_options_def by_price_def js_sub_def)
  then obtain evs o1 o2 where h: "handle_search example_cfg example_fmt (example_upstream example_token e2e_offers)
     (example_query ''cheapest'') = (evs, Reply 200 (BodyOptions [o1, o2]))"
    and p: "price o1 = Fin 150" "price o2 = Fin 200" and i: "option_id o1 = JString ''B''" "option_id o2 = JString ''A''"
    by (auto simp: map_eq_Cons_conv)
  have j1: "jsnum_json (price o1) = Some (JNumber 150 0)" using p by (simp add: jsnum_json_def) code_simp
  have j2: "jsnum_json (price o2) = Some (JNumber 200 0)" using p by (simp add: jsnum_json_def) code_simp
  obtain v1 v2 where v1: "option_json o1 = Some v1" and v2: "option_json o2 = Some v2"
    using j1 j2 by (simp add: option_json_def)
  obtain t where t: "res_json (Reply 200 (BodyOptions [o1, o2])) = Some (200, t)"
    and pt: "json_parse t = Some (JObject [(''ok'', JBool True), (''options'', JArray (map json_wire [v1, v2]))])"
    using options_reply_parse [of "[o1, o2]" "[v1, v2]" 200] v1 v2 by auto
  have n: "norm_num 150 0 = JNumber 15 1" "norm_num 200 0 = JNumber 2 2" by code_simp+
  have "map (\<lambda>x. get_opt x ''price'') (map json_wire [v1, v2]) = [JNumber 15 1, JNumber 2 2]"
    using option_wire_get(1) [OF v1 j1] option_wire_get(1) [OF v2 j2] n by simp
  moreover have "map (\<lambda>x. get_opt x ''id'') (map json_wire [v1, v2]) = [JString ''B'', JString ''A'']"
    using option_wire_get(2) [OF v1 j1] option_wire_get(2) [OF v2 j2] i by simp
  ultimately show ?thesis using t pt h up by auto
qed

section \<open>The departure date in the server's time zone\<close>

text \<open>C32. With the date formatter of the code in a server time zone \<open>tz\<close>, a query whose \<open>start\<close> is a date \<open>YYYY-MM-DD\<close> is sent with the \<open>departureDate\<close> of the day \<open>tz div 1440\<close> days away: the same day east of UTC, the day before west of it.\<close>

theorem departure_date_shift:
  assumes "\<forall>v r. date_model tz v = Some r \<longrightarrow> fmt v = r"
    and "search_params fmt q = Inr ps" and "get_opt q ''start'' = JString (print_date (y, m, d))"
    and "1 \<le> y" and "y \<le> 9999" and "valid_date y m d"
  shows "ps ! 2 = (''departureDate'', print_date (date_of_day (make_day y (int m) d + tz div 1440)))"
proof -
  obtain dep where dep: "fmt (get_opt q ''start'') = Inr dep" "ps ! 2 = (''departureDate'', dep)"
    using search_params_departure [OF assms(2)] by blast
  have "fmt (get_opt q ''start'') = Inr (print_date (date_of_day (make_day y (int m) d + tz div 1440)))"
    using assms(1) date_model_date_only [OF assms(4-6), of tz] assms(3) by simp
  with dep show ?thesis by simp
qed


theorem departure_date_shift_witness:
  "\<exists>ps. search_params (model_fmt (-300)) (example_query ''cheapest'') = Inr ps \<and>
     ps ! 2 = (''departureDate'', ''2024-05-31'')"
proof -
  have ag: "\<forall>v r. date_model (-300) v = Some r \<longrightarrow> model_fmt (-300) v = r" by (simp add: model_fmt_def)
  have st: "get_opt (example_query ''cheapest'') ''start'' = JString (print_date (2024, 5, 1))"
    by (simp add: example_query_def get_opt_def) code_simp
  have v: "valid_date 2024 5 1" by code_simp
  have pr: "print_date (date_of_day (make_day 2024 (int 5) 1 + (-300) div 1440)) = ''2024-05-31''" by code_simp
  have "model_fmt (-300) (JString ''2024-06-01'') = Inr ''2024-05-31''" by code_simp
  then obtain ps where ps: "search_params (model_fmt (-300)) (example_query ''cheapest'') = Inr ps"
    by (simp add: pipeline_example_simps)
  from departure_date_shift [OF ag ps st _ _ v] pr ps show ?thesis by simp
qed


end
